theory Spec2Isabelle
  imports Complex_Main "HOL-Library.Log_Nat"
begin

section \<open>Python values, errors and strings\<close>

text \<open>
  The module \<^verbatim>\<open>wsi/slide.py\<close> is embedded function by function. Exceptions are values:
  a function that can raise returns \<open>py_error + 'a\<close>, with \<open>Inl\<close> the exception. An
  \<^verbatim>\<open>AttributeError\<close> carries the name of the attribute that was looked up on \<^verbatim>\<open>None\<close>,
  as Python's message does.
\<close>

datatype py_error =
    AttributeError string
  | ZeroDivisionError
  | OverflowError
  | ValueError
  | IndexError
  | PropagatedError string

text \<open>The arguments of the path builders are integers, strings or \<^verbatim>\<open>None\<close>.\<close>

datatype pyval = PInt int | PStr string | PNone

fun digits :: "nat \<Rightarrow> string" where
  "digits n = (if n < 10 then [''0123456789'' ! n]
               else digits (n div 10) @ [''0123456789'' ! (n mod 10)])"

declare digits.simps [simp del]

definition str_int :: "int \<Rightarrow> string" where
  "str_int i = (if i < 0 then CHR ''-'' # digits (nat (- i)) else digits (nat i))"

fun py_str :: "pyval \<Rightarrow> string" where
  "py_str (PInt i) = str_int i"
| "py_str (PStr s) = s"
| "py_str PNone = ''None''"

text \<open>
  \<^verbatim>\<open>str.zfill(width)\<close>: zeros are inserted on the left up to the width, after a leading
  sign character if there is one.
\<close>

definition zfill :: "nat \<Rightarrow> string \<Rightarrow> string" where
  "zfill width s =
     (if width \<le> length s then s
      else case s of
             c # r \<Rightarrow> if c = CHR ''-'' \<or> c = CHR ''+''
                      then c # replicate (width - length s) CHR ''0'' @ r
                      else replicate (width - length s) CHR ''0'' @ s
           | [] \<Rightarrow> replicate width CHR ''0'')"

section \<open>Module constants\<close>

text \<open>
  \<^verbatim>\<open>os.sep\<close> is the POSIX separator, as in the docstrings' examples. \<^verbatim>\<open>SCALE_FACTOR\<close> is
  a module variable read at every call; the functions below take it as their first
  argument \<open>sf\<close>, and the module sets it to 32.
\<close>

definition os_sep :: string where "os_sep = ''/''"
definition BASE_DIR :: string where "BASE_DIR = ''..'' @ os_sep @ ''data''"
definition TRAIN_PREFIX :: string where "TRAIN_PREFIX = ''TUPAC-TR-''"
definition SRC_TRAIN_DIR :: string where "SRC_TRAIN_DIR = BASE_DIR @ os_sep @ ''training_slides''"
definition SRC_TRAIN_EXT :: string where "SRC_TRAIN_EXT = ''svs''"
definition DEST_TRAIN_SUFFIX :: string where "DEST_TRAIN_SUFFIX = ''''"
definition DEST_TRAIN_EXT :: string where "DEST_TRAIN_EXT = ''png''"
definition SCALE_FACTOR :: int where "SCALE_FACTOR = 32"
definition DEST_TRAIN_DIR :: string where
  "DEST_TRAIN_DIR = BASE_DIR @ os_sep @ ''training_'' @ DEST_TRAIN_EXT"
definition THUMBNAIL_SIZE :: int where "THUMBNAIL_SIZE = 300"
definition THUMBNAIL_EXT :: string where "THUMBNAIL_EXT = ''jpg''"
definition DEST_TRAIN_THUMBNAIL_DIR :: string where
  "DEST_TRAIN_THUMBNAIL_DIR = BASE_DIR @ os_sep @ ''training_thumbnail_'' @ THUMBNAIL_EXT"
definition FILTER_SUFFIX :: string where "FILTER_SUFFIX = ''''"
definition FILTER_RESULT_TEXT :: string where "FILTER_RESULT_TEXT = ''filtered''"
definition FILTER_DIR :: string where "FILTER_DIR = BASE_DIR @ os_sep @ ''filter_'' @ DEST_TRAIN_EXT"

section \<open>The file system seen by \<^verbatim>\<open>glob\<close>\<close>

text \<open>
  \<^verbatim>\<open>glob.glob(prefix + "*." + ext)\<close> returns the existing paths that start with the prefix,
  end with the dot and the extension, and have no separator in between, in the order of
  the directory listing. The file system is the list of its paths.
\<close>

definition glob_star :: "string list \<Rightarrow> string \<Rightarrow> string \<Rightarrow> string list" where
  "glob_star files pre suf =
     filter (\<lambda>f. length pre + length suf \<le> length f
                \<and> take (length pre) f = pre
                \<and> drop (length f - length suf) f = suf
                \<and> CHR ''/'' \<notin> set (take (length f - length pre - length suf) (drop (length pre) f)))
            files"

section \<open>Path builders\<close>

definition get_training_slide_path :: "int \<Rightarrow> string" where
  "get_training_slide_path slide_number =
     (let padded_sl_num = zfill 3 (str_int slide_number)
      in SRC_TRAIN_DIR @ os_sep @ TRAIN_PREFIX @ padded_sl_num @ ''.'' @ SRC_TRAIN_EXT)"

definition get_training_image_path ::
  "int \<Rightarrow> string list \<Rightarrow> int \<Rightarrow> pyval \<Rightarrow> pyval \<Rightarrow> pyval \<Rightarrow> pyval \<Rightarrow> py_error + string" where
  "get_training_image_path sf files slide_number large_w large_h small_w small_h =
     (let padded_sl_num = zfill 3 (str_int slide_number)
      in if large_w = PNone \<and> large_h = PNone \<and> small_w = PNone \<and> small_h = PNone
         then (case glob_star files (DEST_TRAIN_DIR @ os_sep @ TRAIN_PREFIX @ padded_sl_num)
                                    (''.'' @ DEST_TRAIN_EXT) of
                 [] \<Rightarrow> Inl IndexError
               | img_path # _ \<Rightarrow> Inr img_path)
         else Inr (DEST_TRAIN_DIR @ os_sep @ TRAIN_PREFIX @ padded_sl_num @ ''-'' @ str_int sf
                   @ ''x-'' @ DEST_TRAIN_SUFFIX @ py_str large_w @ ''x'' @ py_str large_h @ ''-''
                   @ py_str small_w @ ''x'' @ py_str small_h @ ''.'' @ DEST_TRAIN_EXT))"

definition get_training_thumbnail_path ::
  "int \<Rightarrow> string list \<Rightarrow> int \<Rightarrow> pyval \<Rightarrow> pyval \<Rightarrow> pyval \<Rightarrow> pyval \<Rightarrow> py_error + string" where
  "get_training_thumbnail_path sf files slide_number large_w large_h small_w small_h =
     (let padded_sl_num = zfill 3 (str_int slide_number)
      in if large_w = PNone \<and> large_h = PNone \<and> small_w = PNone \<and> small_h = PNone
         then (case glob_star files (DEST_TRAIN_THUMBNAIL_DIR @ os_sep @ TRAIN_PREFIX @ padded_sl_num)
                                    (''.'' @ THUMBNAIL_EXT) of
                 [] \<Rightarrow> Inl IndexError
               | img_path # _ \<Rightarrow> Inr img_path)
         else Inr (DEST_TRAIN_THUMBNAIL_DIR @ os_sep @ TRAIN_PREFIX @ padded_sl_num @ ''-''
                   @ str_int sf @ ''x-'' @ DEST_TRAIN_SUFFIX @ py_str large_w @ ''x''
                   @ py_str large_h @ ''-'' @ py_str small_w @ ''x'' @ py_str small_h @ ''.''
                   @ THUMBNAIL_EXT))"

section \<open>The decoder\<close>

text \<open>
  \<^verbatim>\<open>re.match(".*-(.*)x(.*)-(.*)x(.*)\..*", filename)\<close> is anchored at the start of the
  string and not at its end. The pattern is five times a greedy \<^verbatim>\<open>.*\<close> followed by a
  literal character, then a last \<^verbatim>\<open>.*\<close> that always matches. A backtracking matcher gives
  \<^verbatim>\<open>.*\<close> the longest run first and shortens it until the rest of the pattern matches;
  \<^verbatim>\<open>.\<close> matches every character but the newline. \<open>star_then c k\<close> is \<^verbatim>\<open>(.*)\<close> followed by the
  literal \<open>c\<close> and the rest of the pattern \<open>k\<close>: at each character it first tries to take
  the character into the group, and only when that fails does it end the group there.
\<close>

definition newline :: char where "newline = CHR 0x0A"

fun star_then :: "char \<Rightarrow> (string \<Rightarrow> 'a option) \<Rightarrow> string \<Rightarrow> (string \<times> 'a) option" where
  "star_then c k [] = None"
| "star_then c k (y # ys) =
     (case (if y = newline then None else star_then c k ys) of
        Some (g, v) \<Rightarrow> Some (y # g, v)
      | None \<Rightarrow> if y = c then map_option (Pair []) (k ys) else None)"

definition re_match_dimensions ::
  "string \<Rightarrow> (string \<times> string \<times> string \<times> string \<times> string \<times> unit) option" where
  "re_match_dimensions =
     star_then CHR ''-'' (star_then CHR ''x'' (star_then CHR ''-'' (star_then CHR ''x''
       (star_then CHR ''.'' (\<lambda>rest. Some ())))))"

definition parse_dimensions_from_training_image_filename ::
  "string \<Rightarrow> py_error + (string \<times> string \<times> string \<times> string)" where
  "parse_dimensions_from_training_image_filename filename =
     (case re_match_dimensions filename of
        None \<Rightarrow> Inl (AttributeError ''group'')
      | Some (g0, large_w, large_h, small_w, small_h, u) \<Rightarrow> Inr (large_w, large_h, small_w, small_h))"

text \<open>
  \<^verbatim>\<open>get_filter_image_result\<close> looks the training image up by wildcard, decodes its name and
  builds the name of the filter result from the decoded strings (\<^verbatim>\<open>str\<close> of a string is
  the string).
\<close>

definition get_filter_image_result :: "int \<Rightarrow> string list \<Rightarrow> int \<Rightarrow> py_error + string" where
  "get_filter_image_result sf files slide_number =
     (let padded_sl_num = zfill 3 (str_int slide_number)
      in case get_training_image_path sf files slide_number PNone PNone PNone PNone of
           Inl e \<Rightarrow> Inl e
         | Inr training_img_path \<Rightarrow>
             (case parse_dimensions_from_training_image_filename training_img_path of
                Inl e \<Rightarrow> Inl e
              | Inr (large_w, large_h, small_w, small_h) \<Rightarrow>
                  Inr (FILTER_DIR @ os_sep @ TRAIN_PREFIX @ padded_sl_num @ ''-'' @ str_int sf
                       @ ''x-'' @ FILTER_SUFFIX @ py_str (PStr large_w) @ ''x''
                       @ py_str (PStr large_h) @ ''-'' @ py_str (PStr small_w) @ ''x''
                       @ py_str (PStr small_h) @ ''-'' @ FILTER_RESULT_TEXT @ ''.''
                       @ DEST_TRAIN_EXT)))"

text \<open>
  What the regular expression of the decoder accepts, stated without the search: the name
  starts with some text, a hyphen, two groups around an \<open>x\<close>, a hyphen, two groups around
  an \<open>x\<close> and a dot, and none of the matched text before the dot holds a newline. The
  groups are arbitrary text, not numbers.
\<close>

definition regex_accepts :: "string \<Rightarrow> bool" where
  "regex_accepts s \<longleftrightarrow>
     (\<exists>a g1 g2 g3 g4 z.
        s = a @ ''-'' @ g1 @ ''x'' @ g2 @ ''-'' @ g3 @ ''x'' @ g4 @ ''.'' @ z
        \<and> newline \<notin> set (a @ g1 @ g2 @ g3 @ g4))"

text \<open>
  The canonical trailing dimension pattern of the specification, in its words: the name
  ends with \<^verbatim>\<open>-<number>x<number>-<number>x<number>\<close> before the extension, where a number is
  a non-empty string of decimal digits and the extension is what follows the last dot.
  \<open>canonical_name name a lw lh sw sh ext\<close> says that \<open>name\<close> is the text \<open>a\<close> followed by that
  pattern with the four numbers \<open>lw\<close>, \<open>lh\<close>, \<open>sw\<close>, \<open>sh\<close> and the extension \<open>ext\<close>.
\<close>

text \<open>The characters of a decimal numeral.\<close>

definition digit_chars :: "char set" where "digit_chars = set ''0123456789''"

definition number :: "string \<Rightarrow> bool" where
  "number s \<longleftrightarrow> s \<noteq> [] \<and> set s \<subseteq> digit_chars"

definition canonical_name ::
  "string \<Rightarrow> string \<Rightarrow> string \<Rightarrow> string \<Rightarrow> string \<Rightarrow> string \<Rightarrow> string \<Rightarrow> bool" where
  "canonical_name name a lw lh sw sh ext \<longleftrightarrow>
     name = a @ ''-'' @ lw @ ''x'' @ lh @ ''-'' @ sw @ ''x'' @ sh @ ''.'' @ ext
     \<and> number lw \<and> number lh \<and> number sw \<and> number sh \<and> CHR ''.'' \<notin> set ext"

definition canonical_pattern_present :: "string \<Rightarrow> bool" where
  "canonical_pattern_present name \<longleftrightarrow>
     (\<exists>a lw lh sw sh ext. canonical_name name a lw lh sw sh ext)"

section \<open>Floating point\<close>

text \<open>
  Python's \<^verbatim>\<open>float\<close> is the IEEE 754 binary64 format, and every operation returns the exact
  result rounded to the nearest float, ties to the float with an even significand. A finite
  float is modelled by the rational number it denotes. \<open>bit_length\<close> is the number of binary
  digits of a positive integer, \<open>expo x\<close> the exponent of the leading binary digit of
  \<open>x \<noteq> 0\<close>, and \<open>float_round\<close> rounds to 53 significant binary digits, or to a multiple of
  \<open>2 powi (- 1074)\<close> in the subnormal range.
\<close>

function bit_length :: "int \<Rightarrow> int" where
  "bit_length n = (if n \<le> 0 then 0 else 1 + bit_length (n div 2))"
  by pat_completeness auto
termination
  by (relation "measure nat") auto

declare bit_length.simps [simp del]

definition expo :: "rat \<Rightarrow> int" where
  "expo x = (let (p, q) = quotient_of \<bar>x\<bar>;
                 d = bit_length p - bit_length q
             in if 2 powi d \<le> \<bar>x\<bar> then d else d - 1)"

definition round_half_even :: "rat \<Rightarrow> int" where
  "round_half_even y =
     (let f = \<lfloor>y\<rfloor>; r = y - of_int f
      in if r < 1 / 2 then f else if 1 / 2 < r then f + 1 else if even f then f else f + 1)"

definition float_round :: "rat \<Rightarrow> rat" where
  "float_round x =
     (if x = 0 then 0
      else let e = max (expo x) (- 1022) - 52
           in of_int (round_half_even (x / 2 powi e)) * 2 powi e)"

text \<open>
  A rounded result whose exponent exceeds 1023 is not a finite float. Converting an integer
  and dividing two integers then raise \<^verbatim>\<open>OverflowError\<close>. A product or sum of floats becomes
  infinite instead, and the functions below hand every such result to \<^verbatim>\<open>int\<close> or \<^verbatim>\<open>round\<close>,
  which raise \<^verbatim>\<open>OverflowError\<close> on an infinite argument before anything else is observed: the
  overflow is reported where it arises.
\<close>

definition to_float :: "rat \<Rightarrow> py_error + rat" where
  "to_float x = (let y = float_round x
                 in if y = 0 \<or> expo y \<le> 1023 then Inr y else Inl OverflowError)"

definition int_truediv :: "int \<Rightarrow> int \<Rightarrow> py_error + rat" where
  "int_truediv a b = (if b = 0 then Inl ZeroDivisionError else to_float (of_int a / of_int b))"

definition float_of_int :: "int \<Rightarrow> py_error + rat" where
  "float_of_int i = to_float (of_int i)"

definition float_mul :: "rat \<Rightarrow> rat \<Rightarrow> py_error + rat" where
  "float_mul x y = to_float (x * y)"

definition float_add :: "rat \<Rightarrow> rat \<Rightarrow> py_error + rat" where
  "float_add x y = to_float (x + y)"

definition float_truediv :: "rat \<Rightarrow> rat \<Rightarrow> py_error + rat" where
  "float_truediv x y = (if y = 0 then Inl ZeroDivisionError else to_float (x / y))"

text \<open>\<^verbatim>\<open>int(x)\<close> truncates towards zero, \<^verbatim>\<open>math.floor\<close> rounds down, \<^verbatim>\<open>round(x)\<close> rounds half to even.\<close>

definition py_int :: "rat \<Rightarrow> int" where
  "py_int x = (if 0 \<le> x then \<lfloor>x\<rfloor> else \<lceil>x\<rceil>)"

definition math_floor :: "rat \<Rightarrow> int" where
  "math_floor x = \<lfloor>x\<rfloor>"

definition py_round :: "rat \<Rightarrow> int" where
  "py_round x = round_half_even x"

section \<open>The coordinate mapper\<close>

text \<open>
  \<^verbatim>\<open>small_to_large_mapping\<close> evaluates the same expression for each axis:
  \<^verbatim>\<open>round((large / SCALE_FACTOR) / math.floor(large / SCALE_FACTOR) * (SCALE_FACTOR * small))\<close>.
  \<open>mapping_divisor\<close> is its divisor \<^verbatim>\<open>math.floor(large / SCALE_FACTOR)\<close>.
\<close>

definition mapping_divisor :: "int \<Rightarrow> int \<Rightarrow> py_error + int" where
  "mapping_divisor sf large =
     (case int_truediv large sf of Inl e \<Rightarrow> Inl e | Inr a \<Rightarrow> Inr (math_floor a))"

definition map_axis :: "int \<Rightarrow> int \<Rightarrow> int \<Rightarrow> py_error + int" where
  "map_axis sf large small =
     (case int_truediv large sf of Inl e \<Rightarrow> Inl e | Inr a \<Rightarrow>
      (case mapping_divisor sf large of Inl e \<Rightarrow> Inl e | Inr divisor \<Rightarrow>
       (case float_of_int divisor of Inl e \<Rightarrow> Inl e | Inr f \<Rightarrow>
        (case float_truediv a f of Inl e \<Rightarrow> Inl e | Inr b \<Rightarrow>
         (case float_of_int (sf * small) of Inl e \<Rightarrow> Inl e | Inr c \<Rightarrow>
          (case float_mul b c of Inl e \<Rightarrow> Inl e | Inr d \<Rightarrow> Inr (py_round d)))))))"

definition small_to_large_mapping :: "int \<Rightarrow> int \<times> int \<Rightarrow> int \<times> int \<Rightarrow> py_error + (int \<times> int)" where
  "small_to_large_mapping sf small_pixel large_dimensions =
     (let (small_x, small_y) = small_pixel; (large_w, large_h) = large_dimensions
      in case map_axis sf large_w small_x of Inl e \<Rightarrow> Inl e | Inr large_x \<Rightarrow>
         (case map_axis sf large_h small_y of Inl e \<Rightarrow> Inl e | Inr large_y \<Rightarrow>
            Inr (large_x, large_y)))"

section \<open>Slides and the conversion of one slide\<close>

text \<open>
  OpenSlide and PIL are outside the module. An opened slide is a record of what the module
  reads from it; \<open>best_level_for_downsample\<close> is the library's choice of a level. The
  library's \<^verbatim>\<open>open_slide\<close> is a function from the file name to what the call does: it
  returns a slide, raises \<^verbatim>\<open>OpenSlideError\<close>, raises \<^verbatim>\<open>FileNotFoundError\<close>, or raises another
  exception, named by a string (PIL's \<^verbatim>\<open>UnidentifiedImageError\<close> for a file that is neither
  a slide nor an image, for one). The files on disk are a list of paths with the size of
  the image saved there; creating directories is left out.

  An image is its size. Reading a region and converting the colour mode are taken to
  succeed. PIL's \<^verbatim>\<open>Image.resize\<close> converts the two sides to C integers, which raises
  \<^verbatim>\<open>OverflowError\<close> for a side outside the 32-bit range, and refuses a side below 1 with
  \<^verbatim>\<open>ValueError\<close> (height and width must be > 0); otherwise the result has the requested
  size. Running out of memory is outside the model.
\<close>

record slide =
  dimensions :: "int \<times> int"
  level_dimensions :: "(int \<times> int) list"
  best_level_for_downsample :: "int \<Rightarrow> nat"

datatype open_outcome =
    Opened slide
  | Raises_OpenSlideError
  | Raises_FileNotFoundError
  | Raises_other string

type_synonym disk = "(string \<times> int \<times> int) list"

definition open_slide :: "(string \<Rightarrow> open_outcome) \<Rightarrow> string \<Rightarrow> py_error + slide option" where
  "open_slide openslide filename =
     (case openslide filename of
        Opened s \<Rightarrow> Inr (Some s)
      | Raises_OpenSlideError \<Rightarrow> Inr None
      | Raises_FileNotFoundError \<Rightarrow> Inr None
      | Raises_other msg \<Rightarrow> Inl (PropagatedError msg))"

definition pil_resize :: "int \<times> int \<Rightarrow> py_error + (int \<times> int)" where
  "pil_resize size' =
     (let (w, h) = size'
      in if w < - (2 ^ 31) \<or> 2 ^ 31 \<le> w \<or> h < - (2 ^ 31) \<or> 2 ^ 31 \<le> h then Inl OverflowError
         else if w < 1 \<or> h < 1 then Inl ValueError
         else Inr (w, h))"

definition save_thumbnail :: "int \<times> int \<Rightarrow> int \<Rightarrow> string \<Rightarrow> disk \<Rightarrow> py_error option \<times> disk" where
  "save_thumbnail pil_img_size size' path fs =
     (let (w, h) = pil_img_size
      in case int_truediv (size' * w) (max w h) of Inl e \<Rightarrow> (Some e, fs) | Inr tw \<Rightarrow>
         (case int_truediv (size' * h) (max w h) of Inl e \<Rightarrow> (Some e, fs) | Inr th \<Rightarrow>
            (case pil_resize (py_round tw, py_round th) of
               Inl e \<Rightarrow> (Some e, fs)
             | Inr img_size \<Rightarrow> (None, fs @ [(path, img_size)]))))"

definition training_slide_to_image ::
  "int \<Rightarrow> (string \<Rightarrow> open_outcome) \<Rightarrow> int \<Rightarrow> disk \<Rightarrow> py_error option \<times> disk" where
  "training_slide_to_image sf openslide slide_number fs =
     (let slide_filepath = get_training_slide_path slide_number
      in case open_slide openslide slide_filepath of
           Inl e \<Rightarrow> (Some e, fs)
         | Inr None \<Rightarrow> (Some (AttributeError ''dimensions''), fs)
         | Inr (Some slide) \<Rightarrow>
             (let (large_w, large_h) = dimensions slide
              in case int_truediv large_w sf of Inl e \<Rightarrow> (Some e, fs) | Inr qw \<Rightarrow>
                 (case int_truediv large_h sf of Inl e \<Rightarrow> (Some e, fs) | Inr qh \<Rightarrow>
                  (let new_w = math_floor qw; new_h = math_floor qh;
                       level = best_level_for_downsample slide sf
                   in if length (level_dimensions slide) \<le> level then (Some IndexError, fs)
                      else
                        (case pil_resize (new_w, new_h) of
                           Inl e \<Rightarrow> (Some e, fs)
                         | Inr img_size \<Rightarrow>
                        (case get_training_image_path sf (map fst fs) slide_number
                                (PInt large_w) (PInt large_h) (PInt new_w) (PInt new_h) of
                           Inl e \<Rightarrow> (Some e, fs)
                         | Inr img_path \<Rightarrow>
                             (let fs1 = fs @ [(img_path, img_size)]
                              in case get_training_thumbnail_path sf (map fst fs1) slide_number
                                      (PInt large_w) (PInt large_h) (PInt new_w) (PInt new_h) of
                                   Inl e \<Rightarrow> (Some e, fs1)
                                 | Inr thumbnail_path \<Rightarrow>
                                     save_thumbnail img_size THUMBNAIL_SIZE thumbnail_path
                                       fs1)))))))"

section \<open>The work partition\<close>

text \<open>
  \<^verbatim>\<open>multiprocess_training_slides_to_images\<close> builds its task list from the number of
  processors \<^verbatim>\<open>multiprocessing.cpu_count()\<close> and the number of slides
  \<^verbatim>\<open>get_num_training_slides()\<close>; \<open>multiprocess_tasks\<close> is that list. \<open>task\<close> is one round of
  the loop: \<^verbatim>\<open>int((num_process - 1) * images_per_process + 1)\<close> and
  \<^verbatim>\<open>int(num_process * images_per_process)\<close>, where \<^verbatim>\<open>images_per_process\<close> is a float.
\<close>

definition task :: "rat \<Rightarrow> int \<Rightarrow> py_error + (int \<times> int)" where
  "task images_per_process num_process =
     (case float_of_int (num_process - 1) of Inl e \<Rightarrow> Inl e | Inr i0 \<Rightarrow>
      (case float_mul i0 images_per_process of Inl e \<Rightarrow> Inl e | Inr p0 \<Rightarrow>
       (case float_of_int 1 of Inl e \<Rightarrow> Inl e | Inr one \<Rightarrow>
        (case float_add p0 one of Inl e \<Rightarrow> Inl e | Inr start_index \<Rightarrow>
         (case float_of_int num_process of Inl e \<Rightarrow> Inl e | Inr i1 \<Rightarrow>
          (case float_mul i1 images_per_process of Inl e \<Rightarrow> Inl e | Inr end_index \<Rightarrow>
             Inr (py_int start_index, py_int end_index)))))))"

fun tasks_loop :: "rat \<Rightarrow> int list \<Rightarrow> py_error + (int \<times> int) list" where
  "tasks_loop images_per_process [] = Inr []"
| "tasks_loop images_per_process (num_process # rest) =
     (case task images_per_process num_process of Inl e \<Rightarrow> Inl e | Inr t \<Rightarrow>
      (case tasks_loop images_per_process rest of Inl e \<Rightarrow> Inl e | Inr ts \<Rightarrow> Inr (t # ts)))"

definition multiprocess_tasks :: "int \<Rightarrow> int \<Rightarrow> py_error + (int \<times> int) list" where
  "multiprocess_tasks cpu_count num_train_images =
     (let num_processes = (if cpu_count > num_train_images then num_train_images else cpu_count)
      in case int_truediv num_train_images num_processes of
           Inl e \<Rightarrow> Inl e
         | Inr images_per_process \<Rightarrow> tasks_loop images_per_process [1..num_processes])"

text \<open>
  The bound used for the rounding error of a product \<^verbatim>\<open>num_process * images_per_process\<close>
  in the analysis of the partition: the product is at most 1000.
\<close>

definition delta :: rat where "delta = 2001 / 2 ^ 53"


section \<open>Properties of the decoder's matcher\<close>

lemma star_then_absent: "c \<notin> set s \<Longrightarrow> star_then c k s = None"
  by (induction s) auto

text \<open>
  Splitting at the last occurrence of the literal: the group is everything before it when
  the rest of the pattern matches what follows, and otherwise the matcher backtracks into
  the part before it.
\<close>

lemma star_then_last:
  "c \<notin> set b \<Longrightarrow> c \<noteq> newline \<Longrightarrow> newline \<notin> set a \<Longrightarrow>
   star_then c k (a @ c # b) =
     (case k b of Some v \<Rightarrow> Some (a, v) | None \<Rightarrow> star_then c (\<lambda>r. k (r @ c # b)) a)"
proof (induction a)
  case Nil
  then show ?case by (simp add: star_then_absent split: option.splits)
next
  case (Cons y a)
  then show ?case by (simp split: option.splits)
qed

lemma star_then_Some:
  "star_then c k s = Some (g, v) \<Longrightarrow> \<exists>b. s = g @ c # b \<and> k b = Some v \<and> newline \<notin> set g"
proof (induction s arbitrary: g)
  case Nil
  then show ?case by simp
next
  case (Cons y ys)
  then show ?case by (auto split: option.splits if_splits)
qed

lemma star_then_complete:
  "k b \<noteq> None \<Longrightarrow> newline \<notin> set a \<Longrightarrow> star_then c k (a @ c # b) \<noteq> None"
proof (induction a)
  case Nil
  then show ?case by (auto split: option.splits)
next
  case (Cons y a)
  then show ?case by (auto split: option.splits)
qed

lemma digits_chars: "set (digits n) \<subseteq> digit_chars"
proof (induction n rule: digits.induct)
  case (1 n)
  have nth: "''0123456789'' ! d \<in> digit_chars" if "d < 10" for d :: nat
    unfolding digit_chars_def using that by (intro nth_mem) simp
  show ?case
  proof (cases "n < 10")
    case True
    then show ?thesis using nth[of n] by (subst digits.simps) simp
  next
    case False
    then show ?thesis using 1 nth[of "n mod 10"] by (subst digits.simps) simp
  qed
qed

lemma str_int_chars: "0 \<le> i \<Longrightarrow> set (str_int i) \<subseteq> digit_chars"
  by (simp add: str_int_def digits_chars)

lemma str_int_chars_any: "set (str_int i) \<subseteq> insert CHR ''-'' digit_chars"
  using digits_chars by (auto simp: str_int_def)

lemma zfill_chars: "set (zfill w s) \<subseteq> insert CHR ''0'' (set s)"
  by (auto simp: zfill_def split: list.splits if_splits)

lemma digit_chars_not:
  "CHR ''-'' \<notin> digit_chars" "CHR ''x'' \<notin> digit_chars" "CHR ''.'' \<notin> digit_chars"
  "newline \<notin> digit_chars"
  by (simp_all add: digit_chars_def newline_def)

lemma not_in_digits:
  "set s \<subseteq> digit_chars \<Longrightarrow>
   CHR ''-'' \<notin> set s \<and> CHR ''x'' \<notin> set s \<and> CHR ''.'' \<notin> set s \<and> newline \<notin> set s"
  using digit_chars_not by blast

lemma padded_no_newline: "newline \<notin> set (zfill w (str_int i))"
proof -
  have "set (zfill w (str_int i)) \<subseteq> insert CHR ''0'' (insert CHR ''-'' digit_chars)"
    using zfill_chars[of w "str_int i"] str_int_chars_any[of i] by blast
  then show ?thesis using digit_chars_not(4) by (auto simp: newline_def)
qed

text \<open>
  The match on a name of the encoder's shape: a prefix, the scale segment, the two
  dimension pairs and an extension. The matcher first tries the last hyphen, where the
  rest has a single \<open>x\<close> and no further hyphen, and fails; at the hyphen before the large
  dimensions it first tries the last \<open>x\<close> for the first group, fails again, and succeeds
  with the first \<open>x\<close>.
\<close>

lemma match_canonical:
  assumes P: "newline \<notin> set P"
    and S: "newline \<notin> set S"
    and LW: "set LW \<subseteq> digit_chars" and LH: "set LH \<subseteq> digit_chars"
    and SW: "set SW \<subseteq> digit_chars" and SH: "set SH \<subseteq> digit_chars"
    and E: "set E \<inter> {CHR ''-'', CHR ''x'', CHR ''.''} = {}"
  shows "re_match_dimensions
           (P @ ''-'' @ S @ ''x-'' @ LW @ ''x'' @ LH @ ''-'' @ SW @ ''x'' @ SH @ ''.'' @ E)
         = Some (P @ ''-'' @ S @ ''x'', LW, LH, SW, SH, ())"
proof -
  let ?k4 = "star_then CHR ''.'' (\<lambda>rest. Some ())"
  let ?k3 = "star_then CHR ''x'' ?k4"
  let ?k2 = "star_then CHR ''-'' ?k3"
  let ?k1 = "star_then CHR ''x'' ?k2"
  let ?k0 = "star_then CHR ''-'' ?k1"
  let ?tail = "SH @ CHR ''.'' # E"
  note d = not_in_digits[OF LW] not_in_digits[OF LH] not_in_digits[OF SW] not_in_digits[OF SH]
  have nl: "CHR ''-'' \<noteq> newline" "CHR ''x'' \<noteq> newline" "CHR ''.'' \<noteq> newline"
    by (simp_all add: newline_def)
  have f4: "?k4 ?tail = Some (SH, ())"
    using star_then_last[of "CHR ''.''" E SH "\<lambda>rest. Some ()"] E d nl by simp
  have f3: "?k3 (SW @ CHR ''x'' # ?tail) = Some (SW, SH, ())"
    using star_then_last[of "CHR ''x''" ?tail SW ?k4] E d nl f4 by simp
  have n2: "?k2 ?tail = None"
    using E d by (intro star_then_absent) auto
  have f2: "?k2 (LH @ CHR ''-'' # SW @ CHR ''x'' # ?tail) = Some (LH, SW, SH, ())"
    using star_then_last[of "CHR ''-''" "SW @ CHR ''x'' # ?tail" LH ?k3] E d nl f3 by simp
  have n1: "?k1 (SW @ CHR ''x'' # ?tail) = None"
    using star_then_last[of "CHR ''x''" ?tail SW ?k2] E d nl n2
    by (simp add: star_then_absent)
  have f1: "?k1 (LW @ CHR ''x'' # LH @ CHR ''-'' # SW @ CHR ''x'' # ?tail)
            = Some (LW, LH, SW, SH, ())"
  proof -
    have "?k1 ((LW @ CHR ''x'' # LH @ CHR ''-'' # SW) @ CHR ''x'' # ?tail)
          = star_then CHR ''x'' (\<lambda>r. ?k2 (r @ CHR ''x'' # ?tail))
              (LW @ CHR ''x'' # (LH @ CHR ''-'' # SW))"
      using star_then_last[of "CHR ''x''" ?tail "LW @ CHR ''x'' # LH @ CHR ''-'' # SW" ?k2]
        E d nl n2
      by simp
    also have "\<dots> = Some (LW, LH, SW, SH, ())"
      using star_then_last[of "CHR ''x''" "LH @ CHR ''-'' # SW" LW
          "\<lambda>r. ?k2 (r @ CHR ''x'' # ?tail)"] d nl f2
      by simp
    finally show ?thesis by simp
  qed
  let ?pre = "P @ CHR ''-'' # S @ ''x''"
  have "?k0 ((?pre @ CHR ''-'' # LW @ CHR ''x'' # LH) @ CHR ''-'' # (SW @ CHR ''x'' # ?tail))
        = star_then CHR ''-'' (\<lambda>r. ?k1 (r @ CHR ''-'' # (SW @ CHR ''x'' # ?tail)))
            (?pre @ CHR ''-'' # (LW @ CHR ''x'' # LH))"
    using star_then_last[of "CHR ''-''" "SW @ CHR ''x'' # ?tail"
        "?pre @ CHR ''-'' # LW @ CHR ''x'' # LH" ?k1] P S E d nl n1
    by simp
  also have "\<dots> = Some (?pre, LW, LH, SW, SH, ())"
    using star_then_last[of "CHR ''-''" "LW @ CHR ''x'' # LH" ?pre
        "\<lambda>r. ?k1 (r @ CHR ''-'' # (SW @ CHR ''x'' # ?tail))"] P S d nl f1
    by simp
  finally show ?thesis by (simp add: re_match_dimensions_def)
qed

text \<open>
  The same name with a hyphen and a word between the small height and the extension:
  the fourth group \<^verbatim>\<open>(.*)\<close> runs up to the last dot, so it takes the word with it.
\<close>

lemma match_suffixed:
  assumes P: "newline \<notin> set P"
    and S: "newline \<notin> set S"
    and LW: "set LW \<subseteq> digit_chars" and LH: "set LH \<subseteq> digit_chars"
    and SW: "set SW \<subseteq> digit_chars" and SH: "set SH \<subseteq> digit_chars"
    and W: "set W \<inter> {CHR ''-'', CHR ''x'', CHR ''.'', newline} = {}"
    and E: "set E \<inter> {CHR ''-'', CHR ''x'', CHR ''.''} = {}"
  shows "re_match_dimensions
           (P @ ''-'' @ S @ ''x-'' @ LW @ ''x'' @ LH @ ''-'' @ SW @ ''x'' @ SH @ ''-'' @ W @ ''.'' @ E)
         = Some (P @ ''-'' @ S @ ''x'', LW, LH, SW, SH @ ''-'' @ W, ())"
proof -
  let ?k4 = "star_then CHR ''.'' (\<lambda>rest. Some ())"
  let ?k3 = "star_then CHR ''x'' ?k4"
  let ?k2 = "star_then CHR ''-'' ?k3"
  let ?k1 = "star_then CHR ''x'' ?k2"
  let ?k0 = "star_then CHR ''-'' ?k1"
  let ?we = "W @ CHR ''.'' # E"
  let ?tail = "SH @ CHR ''-'' # ?we"
  note d = not_in_digits[OF LW] not_in_digits[OF LH] not_in_digits[OF SW] not_in_digits[OF SH]
  have nl: "CHR ''-'' \<noteq> newline" "CHR ''x'' \<noteq> newline" "CHR ''.'' \<noteq> newline"
    by (simp_all add: newline_def)
  have w: "CHR ''-'' \<notin> set W" "CHR ''x'' \<notin> set W" "CHR ''.'' \<notin> set W" "newline \<notin> set W"
    using W by auto
  have e: "CHR ''-'' \<notin> set E" "CHR ''x'' \<notin> set E" "CHR ''.'' \<notin> set E"
    using E by auto
  have f4: "?k4 ((SH @ CHR ''-'' # W) @ CHR ''.'' # E) = Some (SH @ CHR ''-'' # W, ())"
    using star_then_last[of "CHR ''.''" E "SH @ CHR ''-'' # W" "\<lambda>rest. Some ()"] e w d nl by simp
  have n3: "?k3 ?we = None"
    using e w by (intro star_then_absent) simp
  have f3: "?k3 (SW @ CHR ''x'' # ?tail) = Some (SW, SH @ CHR ''-'' # W, ())"
    using star_then_last[of "CHR ''x''" ?tail SW ?k4] e w d nl f4 by simp
  have n2: "?k2 ?tail = None"
    using star_then_last[of "CHR ''-''" ?we SH ?k3] e w d nl n3
    by (simp add: star_then_absent)
  have f2: "?k2 (LH @ CHR ''-'' # SW @ CHR ''x'' # ?tail) = Some (LH, SW, SH @ CHR ''-'' # W, ())"
  proof -
    have "?k2 ((LH @ CHR ''-'' # SW @ CHR ''x'' # SH) @ CHR ''-'' # ?we)
          = star_then CHR ''-'' (\<lambda>r. ?k3 (r @ CHR ''-'' # ?we)) (LH @ CHR ''-'' # (SW @ CHR ''x'' # SH))"
      using star_then_last[of "CHR ''-''" ?we "LH @ CHR ''-'' # SW @ CHR ''x'' # SH" ?k3]
        e w d nl n3
      by simp
    also have "\<dots> = Some (LH, SW, SH @ CHR ''-'' # W, ())"
      using star_then_last[of "CHR ''-''" "SW @ CHR ''x'' # SH" LH
          "\<lambda>r. ?k3 (r @ CHR ''-'' # ?we)"] d nl f3
      by simp
    finally show ?thesis by simp
  qed
  have n1w: "?k1 ?we = None"
    using e w by (intro star_then_absent) simp
  have n1: "?k1 (SW @ CHR ''x'' # ?tail) = None"
    using star_then_last[of "CHR ''x''" ?tail SW ?k2] e w d nl n2
    by (simp add: star_then_absent)
  have f1: "?k1 (LW @ CHR ''x'' # LH @ CHR ''-'' # SW @ CHR ''x'' # ?tail)
            = Some (LW, LH, SW, SH @ CHR ''-'' # W, ())"
  proof -
    have "?k1 ((LW @ CHR ''x'' # LH @ CHR ''-'' # SW) @ CHR ''x'' # ?tail)
          = star_then CHR ''x'' (\<lambda>r. ?k2 (r @ CHR ''x'' # ?tail))
              (LW @ CHR ''x'' # (LH @ CHR ''-'' # SW))"
      using star_then_last[of "CHR ''x''" ?tail "LW @ CHR ''x'' # LH @ CHR ''-'' # SW" ?k2]
        e w d nl n2
      by simp
    also have "\<dots> = Some (LW, LH, SW, SH @ CHR ''-'' # W, ())"
      using star_then_last[of "CHR ''x''" "LH @ CHR ''-'' # SW" LW
          "\<lambda>r. ?k2 (r @ CHR ''x'' # ?tail)"] d nl f2
      by simp
    finally show ?thesis by simp
  qed
  let ?pre = "P @ CHR ''-'' # S @ ''x''"
  let ?K1 = "\<lambda>r. ?k1 (r @ CHR ''-'' # ?we)"
  have "?k0 ((?pre @ CHR ''-'' # LW @ CHR ''x'' # LH @ CHR ''-'' # SW @ CHR ''x'' # SH) @ CHR ''-'' # ?we)
        = star_then CHR ''-'' ?K1
            ((?pre @ CHR ''-'' # LW @ CHR ''x'' # LH) @ CHR ''-'' # (SW @ CHR ''x'' # SH))"
    using star_then_last[of "CHR ''-''" ?we
        "?pre @ CHR ''-'' # LW @ CHR ''x'' # LH @ CHR ''-'' # SW @ CHR ''x'' # SH" ?k1]
      P S e w d nl n1w
    by simp
  also have "\<dots> = star_then CHR ''-'' (\<lambda>r. ?K1 (r @ CHR ''-'' # (SW @ CHR ''x'' # SH)))
                      (?pre @ CHR ''-'' # (LW @ CHR ''x'' # LH))"
    using star_then_last[of "CHR ''-''" "SW @ CHR ''x'' # SH"
        "?pre @ CHR ''-'' # LW @ CHR ''x'' # LH" ?K1] P S d nl n1
    by simp
  also have "\<dots> = Some (?pre, LW, LH, SW, SH @ CHR ''-'' # W, ())"
    using star_then_last[of "CHR ''-''" "LW @ CHR ''x'' # LH" ?pre
        "\<lambda>r. ?K1 (r @ CHR ''-'' # (SW @ CHR ''x'' # SH))"] P S d nl f1
    by simp
  finally show ?thesis by (simp add: re_match_dimensions_def)
qed

lemma training_image_path_shape:
  "get_training_image_path sf files n (PInt lw) (PInt lh) (PInt sw) (PInt sh) =
     Inr ((DEST_TRAIN_DIR @ os_sep @ TRAIN_PREFIX @ zfill 3 (str_int n)) @ ''-'' @ str_int sf
          @ ''x-'' @ str_int lw @ ''x'' @ str_int lh @ ''-'' @ str_int sw @ ''x'' @ str_int sh
          @ ''.'' @ DEST_TRAIN_EXT)"
  by (simp add: get_training_image_path_def DEST_TRAIN_SUFFIX_def)

lemma dest_prefix_no_newline:
  "newline \<notin> set (DEST_TRAIN_DIR @ os_sep @ TRAIN_PREFIX @ zfill 3 (str_int n))"
  using padded_no_newline[of 3 n]
  by (simp add: DEST_TRAIN_DIR_def BASE_DIR_def os_sep_def TRAIN_PREFIX_def DEST_TRAIN_EXT_def
      newline_def)

lemma filter_prefix_no_newline:
  "newline \<notin> set (FILTER_DIR @ os_sep @ TRAIN_PREFIX @ zfill 3 (str_int n))"
  using padded_no_newline[of 3 n]
  by (simp add: FILTER_DIR_def BASE_DIR_def os_sep_def TRAIN_PREFIX_def DEST_TRAIN_EXT_def
      newline_def)

lemma parse_encoded:
  assumes "0 < s" and "0 < lw" and "0 < lh" and "0 < sw" and "0 < sh"
  shows "parse_dimensions_from_training_image_filename
           ((DEST_TRAIN_DIR @ os_sep @ TRAIN_PREFIX @ zfill 3 (str_int n)) @ ''-'' @ str_int s
            @ ''x-'' @ str_int lw @ ''x'' @ str_int lh @ ''-'' @ str_int sw @ ''x'' @ str_int sh
            @ ''.'' @ DEST_TRAIN_EXT)
         = Inr (str_int lw, str_int lh, str_int sw, str_int sh)"
proof -
  let ?P = "DEST_TRAIN_DIR @ os_sep @ TRAIN_PREFIX @ zfill 3 (str_int n)"
  have S: "newline \<notin> set (str_int s)"
    using str_int_chars[of s] assms(1) digit_chars_not(4) by auto
  have E: "set DEST_TRAIN_EXT \<inter> {CHR ''-'', CHR ''x'', CHR ''.''} = {}"
    by (simp add: DEST_TRAIN_EXT_def)
  have "re_match_dimensions (?P @ ''-'' @ str_int s @ ''x-'' @ str_int lw @ ''x'' @ str_int lh
          @ ''-'' @ str_int sw @ ''x'' @ str_int sh @ ''.'' @ DEST_TRAIN_EXT)
        = Some (?P @ ''-'' @ str_int s @ ''x'', str_int lw, str_int lh, str_int sw, str_int sh, ())"
    using assms by (intro match_canonical dest_prefix_no_newline S E str_int_chars) simp_all
  then show ?thesis
    by (simp add: parse_dimensions_from_training_image_filename_def)
qed

section \<open>Claims about the dimension codec\<close>

text \<open>
  Claim C1 (codec round trip). For every slide number and all positive integers
  \<open>s\<close>, \<open>lw\<close>, \<open>lh\<close>, \<open>sw\<close>, \<open>sh\<close>, the path that \<^verbatim>\<open>get_training_image_path\<close> builds with scale
  factor \<open>s\<close> is decoded by \<^verbatim>\<open>parse_dimensions_from_training_image_filename\<close> to exactly the
  four dimensions. The decoder returns the captured substrings, so the result is the
  four decimal numerals.
\<close>

theorem codec_round_trip:
  assumes "0 < s" and "0 < lw" and "0 < lh" and "0 < sw" and "0 < sh"
  shows "\<exists>p. get_training_image_path s files n (PInt lw) (PInt lh) (PInt sw) (PInt sh) = Inr p
           \<and> parse_dimensions_from_training_image_filename p
               = Inr (str_int lw, str_int lh, str_int sw, str_int sh)"
  unfolding training_image_path_shape using parse_encoded[OF assms, of n] by blast

theorem codec_round_trip_witness:
  "(0::int) < 32 \<and> (0::int) < 49920 \<and> (0::int) < 108288 \<and> (0::int) < 1560 \<and> (0::int) < 3384
   \<and> (\<exists>p. get_training_image_path 32 [] 5 (PInt 49920) (PInt 108288) (PInt 1560) (PInt 3384) = Inr p
         \<and> parse_dimensions_from_training_image_filename p
             = Inr (''49920'', ''108288'', ''1560'', ''3384''))"
proof -
  have n: "str_int 49920 = ''49920''" "str_int 108288 = ''108288''" "str_int 1560 = ''1560''"
    "str_int 3384 = ''3384''"
    by (simp_all add: str_int_def digits.simps)
  show ?thesis
    using codec_round_trip[of 32 49920 108288 1560 3384 "[]" 5] unfolding n by simp
qed

text \<open>
  Claim C6 (decoding derived names), as amended. On the name that
  \<^verbatim>\<open>get_filter_image_result\<close> builds for a slide whose training image carries the positive
  dimensions \<open>lw\<close>, \<open>lh\<close>, \<open>sw\<close>, \<open>sh\<close>, the decoder returns the numerals of \<open>lw\<close>, \<open>lh\<close>
  and \<open>sw\<close> as its first three groups, and as its fourth the numeral of \<open>sh\<close> followed by
  the hyphen and the result text: the small height is not returned on its own.
\<close>

theorem filter_result_decoding:
  assumes "0 < s" and "0 < lw" and "0 < lh" and "0 < sw" and "0 < sh"
    and lookup: "get_training_image_path s files n PNone PNone PNone PNone
                 = get_training_image_path s files n (PInt lw) (PInt lh) (PInt sw) (PInt sh)"
  shows "\<exists>q. get_filter_image_result s files n = Inr q
           \<and> parse_dimensions_from_training_image_filename q
               = Inr (str_int lw, str_int lh, str_int sw, str_int sh @ ''-'' @ FILTER_RESULT_TEXT)"
proof -
  let ?P = "FILTER_DIR @ os_sep @ TRAIN_PREFIX @ zfill 3 (str_int n)"
  let ?q = "?P @ ''-'' @ str_int s @ ''x-'' @ str_int lw @ ''x'' @ str_int lh @ ''-''
            @ str_int sw @ ''x'' @ str_int sh @ ''-'' @ FILTER_RESULT_TEXT @ ''.'' @ DEST_TRAIN_EXT"
  have q: "get_filter_image_result s files n = Inr ?q"
    unfolding get_filter_image_result_def lookup training_image_path_shape
    using parse_encoded[OF assms(1-5), of n]
    by (simp add: FILTER_SUFFIX_def)
  have S: "newline \<notin> set (str_int s)"
    using str_int_chars[of s] assms(1) digit_chars_not(4) by auto
  have W: "set FILTER_RESULT_TEXT \<inter> {CHR ''-'', CHR ''x'', CHR ''.'', newline} = {}"
    by (simp add: FILTER_RESULT_TEXT_def newline_def)
  have E: "set DEST_TRAIN_EXT \<inter> {CHR ''-'', CHR ''x'', CHR ''.''} = {}"
    by (simp add: DEST_TRAIN_EXT_def)
  have "re_match_dimensions ?q
        = Some (?P @ ''-'' @ str_int s @ ''x'', str_int lw, str_int lh, str_int sw,
                str_int sh @ ''-'' @ FILTER_RESULT_TEXT, ())"
    using assms(1-5)
    by (intro match_suffixed filter_prefix_no_newline S W E str_int_chars) simp_all
  then have "parse_dimensions_from_training_image_filename ?q
             = Inr (str_int lw, str_int lh, str_int sw, str_int sh @ ''-'' @ FILTER_RESULT_TEXT)"
    by (simp add: parse_dimensions_from_training_image_filename_def)
  with q show ?thesis by blast
qed

theorem filter_result_decoding_witness:
  "(0::int) < 32 \<and> (0::int) < 49920 \<and> (0::int) < 108288 \<and> (0::int) < 1560 \<and> (0::int) < 3384
   \<and> get_training_image_path 32
        [''../data/training_png/TUPAC-TR-005-32x-49920x108288-1560x3384.png''] 5
        PNone PNone PNone PNone
      = get_training_image_path 32
          [''../data/training_png/TUPAC-TR-005-32x-49920x108288-1560x3384.png''] 5
          (PInt 49920) (PInt 108288) (PInt 1560) (PInt 3384)
   \<and> (\<exists>q. get_filter_image_result 32
              [''../data/training_png/TUPAC-TR-005-32x-49920x108288-1560x3384.png''] 5 = Inr q
         \<and> parse_dimensions_from_training_image_filename q
             = Inr (''49920'', ''108288'', ''1560'', ''3384-filtered''))"
proof -
  let ?files = "[''../data/training_png/TUPAC-TR-005-32x-49920x108288-1560x3384.png'']"
  have n: "str_int 49920 = ''49920''" "str_int 108288 = ''108288''" "str_int 1560 = ''1560''"
    "str_int 3384 = ''3384''" "str_int 32 = ''32''"
    by (simp_all add: str_int_def digits.simps)
  have pad: "zfill 3 (str_int 5) = ''005''"
    by (simp add: zfill_def str_int_def digits.simps numeral_2_eq_2)
  have wild: "get_training_image_path 32 ?files 5 PNone PNone PNone PNone
              = Inr ''../data/training_png/TUPAC-TR-005-32x-49920x108288-1560x3384.png''"
    by (simp add: get_training_image_path_def pad glob_star_def DEST_TRAIN_DIR_def BASE_DIR_def
        os_sep_def TRAIN_PREFIX_def DEST_TRAIN_EXT_def)
  have enc: "get_training_image_path 32 ?files 5 (PInt 49920) (PInt 108288) (PInt 1560) (PInt 3384)
             = Inr ''../data/training_png/TUPAC-TR-005-32x-49920x108288-1560x3384.png''"
    by (simp add: get_training_image_path_def pad n DEST_TRAIN_DIR_def BASE_DIR_def
        os_sep_def TRAIN_PREFIX_def DEST_TRAIN_EXT_def DEST_TRAIN_SUFFIX_def)
  have lookup: "get_training_image_path 32 ?files 5 PNone PNone PNone PNone
      = get_training_image_path 32 ?files 5 (PInt 49920) (PInt 108288) (PInt 1560) (PInt 3384)"
    by (simp only: wild enc)
  have "\<exists>q. get_filter_image_result 32 ?files 5 = Inr q
         \<and> parse_dimensions_from_training_image_filename q
             = Inr (str_int 49920, str_int 108288, str_int 1560, str_int 3384 @ ''-'' @ FILTER_RESULT_TEXT)"
    by (rule filter_result_decoding[OF _ _ _ _ _ lookup]) simp_all
  then have "\<exists>q. get_filter_image_result 32 ?files 5 = Inr q
         \<and> parse_dimensions_from_training_image_filename q
             = Inr (''49920'', ''108288'', ''1560'', ''3384-filtered'')"
    by (simp add: n FILTER_RESULT_TEXT_def)
  with lookup show ?thesis by simp
qed

text \<open>
  The claim as stated fails on the docstring's own example: the fourth value decoded from
  the filter result name of slide 5 is \<^verbatim>\<open>3384-filtered\<close>, not \<^verbatim>\<open>3384\<close>.
\<close>

theorem filter_result_decoding_counterexample:
  "get_filter_image_result 32
     [''../data/training_png/TUPAC-TR-005-32x-49920x108288-1560x3384.png''] 5
     = Inr ''../data/filter_png/TUPAC-TR-005-32x-49920x108288-1560x3384-filtered.png''
   \<and> parse_dimensions_from_training_image_filename
        ''../data/filter_png/TUPAC-TR-005-32x-49920x108288-1560x3384-filtered.png''
       = Inr (''49920'', ''108288'', ''1560'', ''3384-filtered'')
   \<and> parse_dimensions_from_training_image_filename
        ''../data/filter_png/TUPAC-TR-005-32x-49920x108288-1560x3384-filtered.png''
       \<noteq> Inr (''49920'', ''108288'', ''1560'', ''3384'')"
proof -
  have pad: "zfill 3 (str_int 5) = ''005''"
    by (simp add: zfill_def str_int_def digits.simps numeral_2_eq_2)
  have s32: "str_int 32 = ''32''"
    by (simp add: str_int_def digits.simps)
  have wild: "get_training_image_path 32
            [''../data/training_png/TUPAC-TR-005-32x-49920x108288-1560x3384.png''] 5
            PNone PNone PNone PNone
          = Inr ''../data/training_png/TUPAC-TR-005-32x-49920x108288-1560x3384.png''"
    by (simp add: get_training_image_path_def pad glob_star_def DEST_TRAIN_DIR_def BASE_DIR_def
        os_sep_def TRAIN_PREFIX_def DEST_TRAIN_EXT_def)
  have pr: "parse_dimensions_from_training_image_filename
         ''../data/training_png/TUPAC-TR-005-32x-49920x108288-1560x3384.png''
       = Inr (''49920'', ''108288'', ''1560'', ''3384'')"
    by (simp add: parse_dimensions_from_training_image_filename_def re_match_dimensions_def
        newline_def)
  have r: "get_filter_image_result 32
       [''../data/training_png/TUPAC-TR-005-32x-49920x108288-1560x3384.png''] 5
       = Inr ''../data/filter_png/TUPAC-TR-005-32x-49920x108288-1560x3384-filtered.png''"
    by (simp add: get_filter_image_result_def wild pr pad s32 FILTER_DIR_def BASE_DIR_def
        os_sep_def TRAIN_PREFIX_def DEST_TRAIN_EXT_def FILTER_SUFFIX_def FILTER_RESULT_TEXT_def)
  have d: "parse_dimensions_from_training_image_filename
         ''../data/filter_png/TUPAC-TR-005-32x-49920x108288-1560x3384-filtered.png''
       = Inr (''49920'', ''108288'', ''1560'', ''3384-filtered'')"
    by (simp add: parse_dimensions_from_training_image_filename_def re_match_dimensions_def
        newline_def)
  show ?thesis
    by (simp only: r d) simp
qed

text \<open>The matcher finds a match exactly when the pattern is present.\<close>

lemma re_match_sound:
  assumes "re_match_dimensions s = Some (g0, g1, g2, g3, g4, u)"
  shows "\<exists>z. s = g0 @ ''-'' @ g1 @ ''x'' @ g2 @ ''-'' @ g3 @ ''x'' @ g4 @ ''.'' @ z
            \<and> newline \<notin> set (g0 @ g1 @ g2 @ g3 @ g4)"
proof -
  from assms obtain b0 where b0: "s = g0 @ CHR ''-'' # b0" "newline \<notin> set g0"
    and m1: "star_then CHR ''x'' (star_then CHR ''-'' (star_then CHR ''x''
               (star_then CHR ''.'' (\<lambda>rest. Some ())))) b0 = Some (g1, g2, g3, g4, u)"
    unfolding re_match_dimensions_def by (blast dest: star_then_Some)
  from m1 obtain b1 where b1: "b0 = g1 @ CHR ''x'' # b1" "newline \<notin> set g1"
    and m2: "star_then CHR ''-'' (star_then CHR ''x''
               (star_then CHR ''.'' (\<lambda>rest. Some ()))) b1 = Some (g2, g3, g4, u)"
    by (blast dest: star_then_Some)
  from m2 obtain b2 where b2: "b1 = g2 @ CHR ''-'' # b2" "newline \<notin> set g2"
    and m3: "star_then CHR ''x'' (star_then CHR ''.'' (\<lambda>rest. Some ())) b2 = Some (g3, g4, u)"
    by (blast dest: star_then_Some)
  from m3 obtain b3 where b3: "b2 = g3 @ CHR ''x'' # b3" "newline \<notin> set g3"
    and m4: "star_then CHR ''.'' (\<lambda>rest. Some ()) b3 = Some (g4, u)"
    by (blast dest: star_then_Some)
  from m4 obtain b4 where b4: "b3 = g4 @ CHR ''.'' # b4" "newline \<notin> set g4"
    by (blast dest: star_then_Some)
  show ?thesis using b0 b1 b2 b3 b4 by simp
qed

lemma re_match_complete:
  assumes "regex_accepts s"
  shows "re_match_dimensions s \<noteq> None"
proof -
  from assms obtain a g1 g2 g3 g4 z where
    s: "s = a @ CHR ''-'' # (g1 @ CHR ''x'' # (g2 @ CHR ''-'' # (g3 @ CHR ''x'' # (g4 @ CHR ''.'' # z))))"
    and n: "newline \<notin> set a" "newline \<notin> set g1" "newline \<notin> set g2" "newline \<notin> set g3"
      "newline \<notin> set g4"
    unfolding regex_accepts_def by auto
  let ?k4 = "star_then CHR ''.'' (\<lambda>rest. Some ())"
  let ?k3 = "star_then CHR ''x'' ?k4"
  let ?k2 = "star_then CHR ''-'' ?k3"
  let ?k1 = "star_then CHR ''x'' ?k2"
  have 4: "?k4 (g4 @ CHR ''.'' # z) \<noteq> None"
    using n by (intro star_then_complete) simp_all
  have 3: "?k3 (g3 @ CHR ''x'' # (g4 @ CHR ''.'' # z)) \<noteq> None"
    using n 4 by (intro star_then_complete) simp_all
  have 2: "?k2 (g2 @ CHR ''-'' # (g3 @ CHR ''x'' # (g4 @ CHR ''.'' # z))) \<noteq> None"
    using n 3 by (intro star_then_complete) simp_all
  have 1: "?k1 (g1 @ CHR ''x'' # (g2 @ CHR ''-'' # (g3 @ CHR ''x'' # (g4 @ CHR ''.'' # z)))) \<noteq> None"
    using n 2 by (intro star_then_complete) simp_all
  show ?thesis
    unfolding re_match_dimensions_def s using n 1 by (intro star_then_complete) simp_all
qed

text \<open>
  The canonical pattern is found by the search. A continuation that fails on every text
  without a dot keeps failing behind another literal, so no hyphen or \<open>x\<close> of the extension
  can be taken for a separator; and the rightmost separator behind which the rest of the
  pattern matches is the one the greedy search settles on.
\<close>

lemma star_then_no_dot:
  assumes "\<And>s. CHR ''.'' \<notin> set s \<Longrightarrow> k s = None"
  shows "CHR ''.'' \<notin> set s \<Longrightarrow> star_then c k s = None"
  by (induction s) (auto simp: assms)

lemma star_then_skip:
  "c \<notin> set p \<Longrightarrow> star_then c k s = None \<Longrightarrow> star_then c k (p @ s) = None"
  by (induction p) auto

lemma star_then_rightmost:
  "newline \<notin> set pre \<Longrightarrow> k tail = Some v \<Longrightarrow> star_then c k tail = None \<Longrightarrow>
   star_then c k (pre @ c # tail) = Some (pre, v)"
  by (induction pre) auto

lemma number_chars:
  assumes "number s"
  shows "CHR ''-'' \<notin> set s" "CHR ''x'' \<notin> set s" "CHR ''.'' \<notin> set s" "newline \<notin> set s"
  using assms digit_chars_not unfolding number_def by auto

lemma match_trailing_pattern:
  assumes c: "canonical_name name a lw lh sw sh ext" and a: "newline \<notin> set a"
  shows "re_match_dimensions name = Some (a, lw, lh, sw, sh, ())"
proof -
  let ?k5 = "star_then CHR ''.'' (\<lambda>rest. Some ())"
  let ?k4 = "star_then CHR ''x'' ?k5"
  let ?k3 = "star_then CHR ''-'' ?k4"
  let ?k2 = "star_then CHR ''x'' ?k3"
  let ?k1 = "star_then CHR ''-'' ?k2"
  from c have name: "name = a @ CHR ''-'' # (lw @ CHR ''x'' # (lh @ CHR ''-'' # (sw @ CHR ''x'' #
      (sh @ CHR ''.'' # ext))))"
    and n: "number lw" "number lh" "number sw" "number sh" and e: "CHR ''.'' \<notin> set ext"
    unfolding canonical_name_def by simp_all
  note lw = number_chars[OF n(1)] and lh = number_chars[OF n(2)]
    and sw = number_chars[OF n(3)] and sh = number_chars[OF n(4)]
  have d5: "?k5 s = None" if "CHR ''.'' \<notin> set s" for s
    using that by (rule star_then_absent)
  have d4: "?k4 s = None" if "CHR ''.'' \<notin> set s" for s
    using d5 that by (rule star_then_no_dot)
  have d3: "?k3 s = None" if "CHR ''.'' \<notin> set s" for s
    using d4 that by (rule star_then_no_dot)
  have d2: "?k2 s = None" if "CHR ''.'' \<notin> set s" for s
    using d3 that by (rule star_then_no_dot)
  have d1: "?k1 s = None" if "CHR ''.'' \<notin> set s" for s
    using d2 that by (rule star_then_no_dot)
  let ?t5 = "sh @ CHR ''.'' # ext"
  let ?t4 = "sw @ CHR ''x'' # ?t5"
  let ?t3 = "lh @ CHR ''-'' # ?t4"
  let ?t2 = "lw @ CHR ''x'' # ?t3"
  have a5: "?k5 ?t5 = Some (sh, ())"
    using sh(4) d5[OF e] by (intro star_then_rightmost) simp_all
  have n4: "?k4 ?t5 = None"
    using sh(2) d4[OF e] by (intro star_then_skip) (simp_all add: newline_def)
  have n3: "?k3 ?t5 = None"
    using sh(1) d3[OF e] by (intro star_then_skip) (simp_all add: newline_def)
  have n2: "?k2 ?t5 = None"
    using sh(2) d2[OF e] by (intro star_then_skip) (simp_all add: newline_def)
  have n1: "?k1 ?t5 = None"
    using sh(1) d1[OF e] by (intro star_then_skip) (simp_all add: newline_def)
  have a4: "?k4 ?t4 = Some (sw, sh, ())"
    using sw(4) a5 n4 by (rule star_then_rightmost)
  have m3: "?k3 ?t4 = None"
    using sw(1) n3 by (intro star_then_skip) (simp_all add: newline_def)
  have m2: "?k2 ?t4 = None"
    using sw(2) n2 n3 by (intro star_then_skip) (simp_all add: newline_def)
  have m1: "?k1 ?t4 = None"
    using sw(1) n1 by (intro star_then_skip) (simp_all add: newline_def)
  have a3: "?k3 ?t3 = Some (lh, sw, sh, ())"
    using lh(4) a4 m3 by (rule star_then_rightmost)
  have l2: "?k2 ?t3 = None"
    using lh(2) m2 by (intro star_then_skip) (simp_all add: newline_def)
  have l1: "?k1 ?t3 = None"
    using lh(1) m1 m2 by (intro star_then_skip) (simp_all add: newline_def)
  have a2: "?k2 ?t2 = Some (lw, lh, sw, sh, ())"
    using lw(4) a3 l2 by (rule star_then_rightmost)
  have j1: "?k1 ?t2 = None"
    using lw(1) l1 by (intro star_then_skip) (simp_all add: newline_def)
  show ?thesis
    unfolding re_match_dimensions_def name using a a2 j1 by (rule star_then_rightmost)
qed

text \<open>
  Claim C8 (malformed names), amended. The decoder searches for the regular expression
  \<^verbatim>\<open>.*-(.*)x(.*)-(.*)x(.*)\..*\<close>, whose groups are arbitrary text. It fails exactly on the
  names that expression does not accept: \<^verbatim>\<open>re.match\<close> returns \<^verbatim>\<open>None\<close> and \<^verbatim>\<open>m.group(1)\<close>
  raises \<^verbatim>\<open>AttributeError\<close>, the module's only report of a malformed name. On a name that
  ends with the canonical pattern \<^verbatim>\<open>-<number>x<number>-<number>x<number>\<close> before its
  extension, with no newline in the text before the pattern, it returns exactly the four
  numbers of the pattern, whatever the text before it and whatever the extension.
\<close>

theorem decoder_outcome:
  "(canonical_name name a lw lh sw sh ext \<and> newline \<notin> set a \<longrightarrow>
      parse_dimensions_from_training_image_filename name = Inr (lw, lh, sw, sh))
   \<and> (parse_dimensions_from_training_image_filename name = Inl (AttributeError ''group'')
        \<longleftrightarrow> \<not> regex_accepts name)
   \<and> (\<forall>e. parse_dimensions_from_training_image_filename name = Inl e
        \<longrightarrow> e = AttributeError ''group'')"
proof (intro conjI impI allI)
  assume h: "canonical_name name a lw lh sw sh ext \<and> newline \<notin> set a"
  have "re_match_dimensions name = Some (a, lw, lh, sw, sh, ())"
    using conjunct1[OF h] conjunct2[OF h] by (rule match_trailing_pattern)
  then show "parse_dimensions_from_training_image_filename name = Inr (lw, lh, sw, sh)"
    by (simp add: parse_dimensions_from_training_image_filename_def)
next
  show "parse_dimensions_from_training_image_filename name = Inl (AttributeError ''group'')
        \<longleftrightarrow> \<not> regex_accepts name"
  proof (cases "re_match_dimensions name")
    case None
    then have "\<not> regex_accepts name" using re_match_complete[of name] by blast
    then show ?thesis
      using None by (simp add: parse_dimensions_from_training_image_filename_def)
  next
    case (Some m)
    obtain g0 g1 g2 g3 g4 u where m: "m = (g0, g1, g2, g3, g4, u)" by (cases m)
    from re_match_sound[OF Some[unfolded m]] have "regex_accepts name"
      unfolding regex_accepts_def by blast
    then show ?thesis
      using Some m by (simp add: parse_dimensions_from_training_image_filename_def)
  qed
next
  fix e
  assume "parse_dimensions_from_training_image_filename name = Inl e"
  then show "e = AttributeError ''group''"
    by (auto simp: parse_dimensions_from_training_image_filename_def split: option.splits)
qed

theorem decoder_outcome_witness:
  "canonical_name ''TUPAC-TR-005-32x-49920x108288-1560x3384.png''
      ''TUPAC-TR-005-32x'' ''49920'' ''108288'' ''1560'' ''3384'' ''png''
   \<and> newline \<notin> set ''TUPAC-TR-005-32x''
   \<and> parse_dimensions_from_training_image_filename ''TUPAC-TR-005-32x-49920x108288-1560x3384.png''
       = Inr (''49920'', ''108288'', ''1560'', ''3384'')
   \<and> \<not> regex_accepts ''TUPAC-TR-005.svs''
   \<and> parse_dimensions_from_training_image_filename ''TUPAC-TR-005.svs''
       = Inl (AttributeError ''group'')"
proof -
  have c: "canonical_name ''TUPAC-TR-005-32x-49920x108288-1560x3384.png''
      ''TUPAC-TR-005-32x'' ''49920'' ''108288'' ''1560'' ''3384'' ''png''"
    by (simp add: canonical_name_def number_def digit_chars_def)
  have n: "newline \<notin> set ''TUPAC-TR-005-32x''"
    by (simp add: newline_def)
  have p: "parse_dimensions_from_training_image_filename ''TUPAC-TR-005.svs''
       = Inl (AttributeError ''group'')"
    by (simp add: parse_dimensions_from_training_image_filename_def re_match_dimensions_def
        newline_def)
  note t1 = decoder_outcome[of "''TUPAC-TR-005-32x-49920x108288-1560x3384.png''"
      "''TUPAC-TR-005-32x''" "''49920''" "''108288''" "''1560''" "''3384''" "''png''",
      THEN conjunct1, rule_format, OF conjI, OF c n]
  note t2 = decoder_outcome[of "''TUPAC-TR-005.svs''" "[]" "[]" "[]" "[]" "[]" "[]",
      THEN conjunct2, THEN conjunct1, THEN iffD1, OF p]
  show ?thesis
    by (intro conjI c n t1 t2 p)
qed

text \<open>
  The claim as stated fails in both directions. The name \<^verbatim>\<open>a-bxc-dxe.f\<close> holds no number,
  so the canonical pattern is absent, and it is decoded without error. The name made of a
  newline followed by \<^verbatim>\<open>-1x2-3x4.png\<close> ends with the canonical pattern, and the decoder
  fails on it, because \<^verbatim>\<open>.*\<close> does not cross a newline.
\<close>

theorem decoder_outcome_counterexample:
  "\<not> canonical_pattern_present ''a-bxc-dxe.f''
   \<and> parse_dimensions_from_training_image_filename ''a-bxc-dxe.f''
       = Inr (''b'', ''c'', ''d'', ''e'')
   \<and> canonical_pattern_present (newline # ''-1x2-3x4.png'')
   \<and> parse_dimensions_from_training_image_filename (newline # ''-1x2-3x4.png'')
       = Inl (AttributeError ''group'')"
proof -
  have a: "\<not> canonical_pattern_present ''a-bxc-dxe.f''"
  proof
    assume "canonical_pattern_present ''a-bxc-dxe.f''"
    then obtain a lw lh sw sh ext where
      eq: "''a-bxc-dxe.f'' = a @ ''-'' @ lw @ ''x'' @ lh @ ''-'' @ sw @ ''x'' @ sh @ ''.'' @ ext"
      and lw: "number lw"
      unfolding canonical_pattern_present_def canonical_name_def by blast
    from lw obtain d where d: "d \<in> set lw" "d \<in> digit_chars"
      unfolding number_def by (cases lw) auto
    from d(1) have "d \<in> set (a @ ''-'' @ lw @ ''x'' @ lh @ ''-'' @ sw @ ''x'' @ sh @ ''.'' @ ext)"
      by simp
    then have "d \<in> set ''a-bxc-dxe.f''"
      by (simp only: eq[symmetric])
    with d(2) show False by (auto simp: digit_chars_def)
  qed
  have b: "parse_dimensions_from_training_image_filename ''a-bxc-dxe.f''
       = Inr (''b'', ''c'', ''d'', ''e'')"
    by (simp add: parse_dimensions_from_training_image_filename_def re_match_dimensions_def
        newline_def)
  have "canonical_name (newline # ''-1x2-3x4.png'') [newline] ''1'' ''2'' ''3'' ''4'' ''png''"
    by (simp add: canonical_name_def number_def digit_chars_def)
  then have c: "canonical_pattern_present (newline # ''-1x2-3x4.png'')"
    unfolding canonical_pattern_present_def by (intro exI)
  have d: "parse_dimensions_from_training_image_filename (newline # ''-1x2-3x4.png'')
       = Inl (AttributeError ''group'')"
    by (simp add: parse_dimensions_from_training_image_filename_def re_match_dimensions_def
        newline_def)
  show ?thesis
    by (intro conjI a b c d)
qed

section \<open>Claims about the work partition: concrete plans\<close>

text \<open>
  Claim C3 (partition example), as amended. Five slides on two processors: the quotient is
  the float 2.5, the first task ends at \<^verbatim>\<open>int(2.5)\<close>, which is 2, and the second starts at
  \<^verbatim>\<open>int(3.5)\<close>, which is 3. The plan is \<open>[(1, 2), (3, 5)]\<close>.
\<close>

theorem partition_5_2: "multiprocess_tasks 2 5 = Inr [(1, 2), (3, 5)]"
  by code_simp

text \<open>The plan of the claim as stated, \<open>[(1, 3), (4, 5)]\<close>, is not the one computed.\<close>

theorem partition_5_2_counterexample: "multiprocess_tasks 2 5 \<noteq> Inr [(1, 3), (4, 5)]"
  by code_simp

text \<open>
  Claim C2 (partition coverage) fails on the code. With 61 slides and 14 processors the
  quotient \<^verbatim>\<open>61 / 14\<close> is rounded down to a float, and 14 times that float is rounded to the
  float just below 61, so the last task ends at 60: slide 61 is in no task, while the
  single-process path converts slides 1 to 61. The ranges are still disjoint, increasing
  and 14 in number.
\<close>

theorem partition_61_14:
  "multiprocess_tasks 14 61 =
     Inr [(1, 4), (5, 8), (9, 13), (14, 17), (18, 21), (22, 26), (27, 30),
          (31, 34), (35, 39), (40, 43), (44, 47), (48, 52), (53, 56), (57, 60)]"
  by code_simp

section \<open>Claims about opening a slide\<close>

text \<open>
  Claim C7 (open failure), amended. \<^verbatim>\<open>open_slide\<close> catches two exceptions of the library,
  \<^verbatim>\<open>OpenSlideError\<close> and \<^verbatim>\<open>FileNotFoundError\<close>, and returns \<^verbatim>\<open>None\<close> for both. For a slide whose
  opening raises one of the two, the conversion fails at its first use of the handle,
  \<^verbatim>\<open>slide.dimensions\<close>, with the same \<^verbatim>\<open>AttributeError\<close> for both causes, and writes nothing.
  The module has no error class of its own: that \<^verbatim>\<open>AttributeError\<close> on \<^verbatim>\<open>None\<close> is all it
  reports of a slide that could not be opened.
\<close>

theorem open_failure_propagates:
  assumes "openslide (get_training_slide_path n) = Raises_OpenSlideError
           \<or> openslide (get_training_slide_path n) = Raises_FileNotFoundError"
  shows "training_slide_to_image sf openslide n fs = (Some (AttributeError ''dimensions''), fs)"
  using assms by (auto simp: training_slide_to_image_def open_slide_def)

theorem open_failure_propagates_witness:
  "training_slide_to_image 32 (\<lambda>f. Raises_FileNotFoundError) 5 []
     = (Some (AttributeError ''dimensions''), [])
   \<and> training_slide_to_image 32 (\<lambda>f. Raises_OpenSlideError) 5 []
     = (Some (AttributeError ''dimensions''), [])"
  using open_failure_propagates[of "\<lambda>f. Raises_FileNotFoundError" 5 32 "[]"]
    open_failure_propagates[of "\<lambda>f. Raises_OpenSlideError" 5 32 "[]"]
  by simp

text \<open>
  The claim as stated covers every slide that cannot be opened, and fails for a file that
  the library rejects with an exception \<^verbatim>\<open>open_slide\<close> does not catch. For a file that is
  neither a slide nor an image the library raises PIL's \<^verbatim>\<open>UnidentifiedImageError\<close>; it
  leaves \<^verbatim>\<open>open_slide\<close> and the conversion as it is, a different error from the one of a
  missing file.
\<close>

theorem open_failure_propagates_counterexample:
  "training_slide_to_image 32 (\<lambda>f. Raises_other ''UnidentifiedImageError'') 5 []
     = (Some (PropagatedError ''UnidentifiedImageError''), [])
   \<and> training_slide_to_image 32 (\<lambda>f. Raises_other ''UnidentifiedImageError'') 5 []
     \<noteq> training_slide_to_image 32 (\<lambda>f. Raises_FileNotFoundError) 5 []"
  by (simp add: training_slide_to_image_def open_slide_def)

section \<open>Properties of the floating-point model\<close>

lemma bit_length_pos: "0 < n \<Longrightarrow> 0 < bit_length n"
proof (induction n rule: bit_length.induct)
  case (1 n)
  show ?case
  proof (cases "n div 2 \<le> 0")
    case True
    then have "bit_length (n div 2) = 0" by (subst bit_length.simps) simp
    with 1 show ?thesis by (subst bit_length.simps) simp
  next
    case False
    with 1 have "0 < bit_length (n div 2)" by simp
    with 1 show ?thesis by (subst bit_length.simps) simp
  qed
qed

lemma bit_length_bounds:
  "0 < n \<Longrightarrow> 2 ^ nat (bit_length n - 1) \<le> n \<and> n < 2 ^ nat (bit_length n)"
proof (induction n rule: bit_length.induct)
  case (1 n)
  show ?case
  proof (cases "n div 2 \<le> 0")
    case True
    with 1 have n1: "n = 1" by linarith
    have "bit_length (1 div 2) = 0" by (subst bit_length.simps) simp
    then have "bit_length 1 = 1" by (subst bit_length.simps) simp
    with n1 show ?thesis by simp
  next
    case False
    then have pos: "0 < n div 2" by simp
    with 1 have ih: "2 ^ nat (bit_length (n div 2) - 1) \<le> n div 2"
      "n div 2 < 2 ^ nat (bit_length (n div 2))"
      by simp_all
    have bl: "bit_length n = 1 + bit_length (n div 2)"
      using 1(2) by (subst bit_length.simps) simp
    have p: "0 < bit_length (n div 2)" using pos by (rule bit_length_pos)
    have e1: "nat (bit_length n - 1) = Suc (nat (bit_length (n div 2) - 1))"
      using bl p by simp
    have e2: "nat (bit_length n) = Suc (nat (bit_length (n div 2)))"
      using bl p by simp
    show ?thesis unfolding e1 e2 using ih by auto
  qed
qed


lemma bit_length_powi:
  assumes "0 < n"
  shows "(2::rat) powi (bit_length n - 1) \<le> of_int n" and "of_int n < (2::rat) powi (bit_length n)"
proof -
  from bit_length_bounds[OF assms] bit_length_pos[OF assms]
  have b: "2 ^ nat (bit_length n - 1) \<le> n" "n < 2 ^ nat (bit_length n)" "0 < bit_length n"
    by simp_all
  have "(of_int (2 ^ nat (bit_length n - 1)) :: rat) \<le> of_int n"
    using b(1) by (simp only: of_int_le_iff)
  then show "(2::rat) powi (bit_length n - 1) \<le> of_int n"
    using b(3) by (simp add: power_int_def)
  have "(of_int n :: rat) < of_int (2 ^ nat (bit_length n))"
    using b(2) by (simp only: of_int_less_iff)
  then show "of_int n < (2::rat) powi (bit_length n)"
    using b(3) by (simp add: power_int_def)
qed

lemma powi2_pos: "0 < (2::rat) powi k"
  by (simp add: zero_less_power_int)

lemma powi2_mono: "a \<le> b \<Longrightarrow> (2::rat) powi a \<le> 2 powi b"
  by (rule power_int_increasing) simp_all

lemma powi2_strict_mono: "a < b \<Longrightarrow> (2::rat) powi a < 2 powi b"
  by (rule power_int_strict_increasing) simp_all

lemma powi2_add: "(2::rat) powi (a + b) = 2 powi a * 2 powi b"
  by (simp add: power_int_add)

lemma powi2_diff: "(2::rat) powi (a - b) = 2 powi a / 2 powi b"
  by (simp add: power_int_diff)

lemma expo_bounds:
  assumes "x \<noteq> 0"
  shows "2 powi (expo x) \<le> \<bar>x\<bar>" and "\<bar>x\<bar> < 2 powi (expo x + 1)"
proof -
  obtain p q where pq: "quotient_of \<bar>x\<bar> = (p, q)" by (cases "quotient_of \<bar>x\<bar>")
  have q: "0 < q" using quotient_of_denom_pos[OF pq] .
  have a: "\<bar>x\<bar> = of_int p / of_int q" using quotient_of_div[OF pq] .
  have "0 < \<bar>x\<bar>" using assms by simp
  then have p: "0 < p" using a q by (simp add: zero_less_divide_iff)
  let ?d = "bit_length p - bit_length q"
  note bp = bit_length_powi[OF p] and bq = bit_length_powi[OF q]
  have qpos: "(0::rat) < of_int q" using q by simp
  have up: "\<bar>x\<bar> < 2 powi (?d + 1)"
  proof -
    have "of_int p / of_int q < 2 powi (bit_length p) / (of_int q :: rat)"
      using bp(2) qpos by (simp add: divide_strict_right_mono)
    also have "\<dots> \<le> 2 powi (bit_length p) / 2 powi (bit_length q - 1)"
      using bq(1) powi2_pos[of "bit_length p"]
        mult_pos_pos[OF qpos powi2_pos[of "bit_length q - 1"]]
      by (intro divide_left_mono) simp_all
    also have "\<dots> = 2 powi (?d + 1)"
      by (simp add: powi2_diff[symmetric] algebra_simps)
    finally show ?thesis using a by simp
  qed
  have lo: "2 powi (?d - 1) < \<bar>x\<bar>"
  proof -
    have "2 powi (?d - 1) = 2 powi (bit_length p - 1) / (2::rat) powi (bit_length q)"
      by (simp add: powi2_diff[symmetric] algebra_simps)
    also have "\<dots> \<le> of_int p / 2 powi (bit_length q)"
      using bp(1) powi2_pos[of "bit_length q"] by (simp add: divide_right_mono)
    also have "\<dots> < of_int p / of_int q"
      using bq(2) qpos p by (intro divide_strict_left_mono) simp_all
    finally show ?thesis using a by simp
  qed
  have e: "expo x = (if 2 powi ?d \<le> \<bar>x\<bar> then ?d else ?d - 1)"
    by (simp add: expo_def pq Let_def)
  show "2 powi (expo x) \<le> \<bar>x\<bar>"
    using lo by (simp add: e)
  show "\<bar>x\<bar> < 2 powi (expo x + 1)"
    using up by (auto simp: e not_le)
qed

lemma expo_unique:
  assumes "2 powi e \<le> \<bar>x\<bar>" and "\<bar>x\<bar> < 2 powi (e + 1)"
  shows "expo x = e"
proof -
  have nz: "x \<noteq> 0"
  proof
    assume "x = 0"
    with assms(1) have "2 powi e \<le> (0::rat)" by simp
    with powi2_pos[of e] show False by linarith
  qed
  note b = expo_bounds[OF nz]
  have "\<not> expo x < e"
  proof
    assume "expo x < e"
    then have "2 powi (expo x + 1) \<le> (2::rat) powi e" by (intro powi2_mono) simp
    with b(2) assms(1) show False by simp
  qed
  moreover have "\<not> e < expo x"
  proof
    assume "e < expo x"
    then have "2 powi (e + 1) \<le> (2::rat) powi (expo x)" by (intro powi2_mono) simp
    with b(1) assms(2) show False by simp
  qed
  ultimately show ?thesis by simp
qed


lemma round_half_even_error: "\<bar>of_int (round_half_even y) - y\<bar> \<le> 1 / 2"
proof -
  have "of_int \<lfloor>y\<rfloor> \<le> y" "y < of_int \<lfloor>y\<rfloor> + 1" by linarith+
  then show ?thesis
    by (auto simp: round_half_even_def Let_def)
qed

lemma round_half_even_of_int [simp]: "round_half_even (of_int z) = z"
  by (simp add: round_half_even_def)

lemma round_half_even_ge: "of_int z \<le> y \<Longrightarrow> z \<le> round_half_even y"
proof -
  assume "of_int z \<le> y"
  then have "z \<le> \<lfloor>y\<rfloor>" by (simp add: le_floor_iff)
  then show ?thesis by (auto simp: round_half_even_def Let_def)
qed

lemma round_half_even_le: "y \<le> of_int z \<Longrightarrow> round_half_even y \<le> z"
proof -
  assume a: "y \<le> of_int z"
  show ?thesis
  proof (cases "y = of_int z")
    case True
    then show ?thesis by simp
  next
    case False
    with a have "y < of_int z" by simp
    then have "\<lfloor>y\<rfloor> < z" by (simp add: floor_less_iff)
    then show ?thesis by (auto simp: round_half_even_def Let_def)
  qed
qed

lemma float_round_normal:
  assumes "2 powi e \<le> \<bar>x\<bar>" and "\<bar>x\<bar> < 2 powi (e + 1)" and "- 1022 \<le> e"
  shows "float_round x = of_int (round_half_even (x / 2 powi (e - 52))) * 2 powi (e - 52)"
proof -
  have e: "expo x = e" using assms(1,2) by (rule expo_unique)
  have nz: "x \<noteq> 0"
  proof
    assume "x = 0"
    with assms(1) have "2 powi e \<le> (0::rat)" by simp
    with powi2_pos[of e] show False by linarith
  qed
  show ?thesis using nz assms(3) by (simp add: float_round_def e Let_def max_def)
qed

lemma float_round_error:
  assumes "2 powi e \<le> \<bar>x\<bar>" and "\<bar>x\<bar> < 2 powi (e + 1)" and "- 1022 \<le> e"
  shows "\<bar>float_round x - x\<bar> \<le> 2 powi (e - 53)"
proof -
  let ?u = "(2::rat) powi (e - 52)"
  have u: "0 < ?u" by (rule powi2_pos)
  have "float_round x - x = (of_int (round_half_even (x / ?u)) - x / ?u) * ?u"
    using u by (simp add: float_round_normal[OF assms] algebra_simps)
  then have "\<bar>float_round x - x\<bar> = \<bar>of_int (round_half_even (x / ?u)) - x / ?u\<bar> * ?u"
    using u by (simp add: abs_mult)
  also have "\<dots> \<le> 1 / 2 * ?u"
    using round_half_even_error[of "x / ?u"] u by (intro mult_right_mono) simp_all
  also have "\<dots> = 2 powi (e - 53)"
  proof -
    have "(2::rat) powi (e - 52) = 2 powi (e - 53 + 1)" by simp
    also have "\<dots> = 2 powi (e - 53) * 2" by (simp only: powi2_add) simp
    finally show ?thesis by simp
  qed
  finally show ?thesis .
qed

lemma expo_ge:
  assumes "2 powi e \<le> \<bar>x\<bar>"
  shows "e \<le> expo x"
proof -
  have nz: "x \<noteq> 0"
  proof
    assume "x = 0"
    with assms have "2 powi e \<le> (0::rat)" by simp
    with powi2_pos[of e] show False by linarith
  qed
  show ?thesis
  proof (rule ccontr)
    assume "\<not> e \<le> expo x"
    then have "2 powi (expo x + 1) \<le> (2::rat) powi e" by (intro powi2_mono) simp
    with expo_bounds(2)[OF nz] assms show False by simp
  qed
qed

lemma expo_less:
  assumes "x \<noteq> 0" and "\<bar>x\<bar> < 2 powi e"
  shows "expo x < e"
proof (rule ccontr)
  assume "\<not> expo x < e"
  then have "2 powi e \<le> (2::rat) powi (expo x)" by (intro powi2_mono) simp
  with expo_bounds(1)[OF assms(1)] assms(2) show False by simp
qed

lemma float_round_relative:
  assumes "2 powi (- 1022) \<le> \<bar>x\<bar>"
  shows "\<bar>float_round x - x\<bar> \<le> \<bar>x\<bar> / 2 ^ 53"
proof -
  have nz: "x \<noteq> 0"
  proof
    assume "x = 0"
    with assms have "2 powi (- 1022) \<le> (0::rat)" by simp
    with powi2_pos[of "- 1022"] show False by linarith
  qed
  have e: "- 1022 \<le> expo x" using assms by (rule expo_ge)
  note b = expo_bounds[OF nz]
  have "\<bar>float_round x - x\<bar> \<le> 2 powi (expo x - 53)"
    using b e by (rule float_round_error)
  also have "\<dots> = 2 powi (expo x) / 2 ^ 53"
    by (simp add: powi2_diff)
  also have "\<dots> \<le> \<bar>x\<bar> / 2 ^ 53"
    using b(1) by (simp add: divide_right_mono)
  finally show ?thesis .
qed

lemma float_round_exact:
  assumes k: "\<bar>k\<bar> < 2 ^ 53" and j: "- 1074 \<le> j"
  shows "float_round (of_int k * 2 powi j) = of_int k * 2 powi j"
proof (cases "k = 0")
  case True
  then show ?thesis by (simp add: float_round_def)
next
  case False
  let ?x = "(of_int k :: rat) * 2 powi j"
  have nz: "?x \<noteq> 0" using False powi2_pos[of j] by simp
  have ax: "\<bar>?x\<bar> = of_int \<bar>k\<bar> * 2 powi j"
    using powi2_pos[of j] by (simp add: abs_mult)
  have "(of_int \<bar>k\<bar> :: rat) < of_int (2 ^ 53)" using k by (simp only: of_int_less_iff)
  then have "\<bar>?x\<bar> < 2 ^ 53 * 2 powi j"
    unfolding ax using powi2_pos[of j] by (intro mult_strict_right_mono) simp_all
  also have "\<dots> = 2 powi (53 + j)" by (simp add: powi2_add)
  finally have "expo ?x < 53 + j" using nz by (intro expo_less)
  then have le: "max (expo ?x) (- 1022) - 52 \<le> j" using j by simp
  define e where "e = max (expo ?x) (- 1022) - 52"
  have "?x / 2 powi e = of_int k * 2 powi (j - e)"
    by (simp add: powi2_diff)
  also have "\<dots> = of_int (k * 2 ^ nat (j - e))"
    using le by (simp add: power_int_def e_def)
  finally have m: "?x / 2 powi e = of_int (k * 2 ^ nat (j - e))" .
  have "float_round ?x = of_int (round_half_even (?x / 2 powi e)) * 2 powi e"
    using nz by (simp add: float_round_def Let_def e_def)
  also have "\<dots> = ?x / 2 powi e * 2 powi e"
    unfolding m by (simp only: round_half_even_of_int)
  also have "\<dots> = ?x" using powi2_pos[of e] by simp
  finally show ?thesis .
qed

lemma float_round_of_int:
  assumes "\<bar>k\<bar> < 2 ^ 53"
  shows "float_round (of_int k) = of_int k"
  using float_round_exact[OF assms, of 0] by simp

lemma float_round_lower:
  assumes "2 powi e \<le> x" and "- 1022 \<le> e"
  shows "2 powi e \<le> float_round x"
proof -
  have xpos: "0 < x" using assms(1) powi2_pos[of e] by linarith
  then have ax: "\<bar>x\<bar> = x" by simp
  have nz: "x \<noteq> 0" using xpos by simp
  let ?E = "expo x"
  have E: "e \<le> ?E" using assms(1) ax by (intro expo_ge) simp
  note b = expo_bounds[OF nz]
  let ?u = "(2::rat) powi (?E - 52)"
  have u: "0 < ?u" by (rule powi2_pos)
  have "(2::rat) ^ 52 = 2 powi ?E / ?u" by (simp add: powi2_diff)
  also have "\<dots> \<le> x / ?u" using b(1) ax u by (simp add: divide_right_mono)
  finally have "(of_int (2 ^ 52) :: rat) \<le> x / ?u" by simp
  then have "2 ^ 52 \<le> round_half_even (x / ?u)" by (rule round_half_even_ge)
  then have "(of_int (2 ^ 52) :: rat) \<le> of_int (round_half_even (x / ?u))"
    by (simp only: of_int_le_iff)
  then have m: "2 ^ 52 * ?u \<le> of_int (round_half_even (x / ?u)) * ?u"
    using u by (intro mult_right_mono) simp_all
  have "2 powi ?E = 2 ^ 52 * ?u"
    by (simp add: powi2_diff)
  also note m
  also have "of_int (round_half_even (x / ?u)) * ?u = float_round x"
    using b E assms(2) by (intro float_round_normal[symmetric]) simp_all
  finally have "2 powi ?E \<le> float_round x" .
  with powi2_mono[OF E] show ?thesis by linarith
qed

lemma to_float_finite:
  assumes "\<bar>float_round x\<bar> < 2 powi 1024"
  shows "to_float x = Inr (float_round x)"
proof (cases "float_round x = 0")
  case True
  then show ?thesis by (simp add: to_float_def)
next
  case False
  from expo_less[OF False assms] show ?thesis by (simp add: to_float_def Let_def)
qed

section \<open>Properties of the coordinate mapper\<close>

lemma to_float_cases: "to_float x = Inr (float_round x) \<or> to_float x = Inl OverflowError"
  by (simp add: to_float_def Let_def)

lemma to_float_Inr: "to_float x = Inr y \<Longrightarrow> y = float_round x"
  by (simp add: to_float_def Let_def split: if_splits)

lemma to_float_Inl: "to_float x = Inl e \<Longrightarrow> e = OverflowError"
  by (simp add: to_float_def Let_def split: if_splits)

lemma float_of_int_Inl: "float_of_int i = Inl e \<Longrightarrow> e = OverflowError"
  unfolding float_of_int_def by (rule to_float_Inl)

lemma float_mul_Inl: "float_mul x y = Inl e \<Longrightarrow> e = OverflowError"
  unfolding float_mul_def by (rule to_float_Inl)

lemma float_add_Inl: "float_add x y = Inl e \<Longrightarrow> e = OverflowError"
  unfolding float_add_def by (rule to_float_Inl)

lemma float_truediv_Inl: "y \<noteq> 0 \<Longrightarrow> float_truediv x y = Inl e \<Longrightarrow> e = OverflowError"
  unfolding float_truediv_def by (simp add: to_float_Inl)

lemma quotient_ge_one:
  assumes "0 < sf" and "sf \<le> large"
  shows "(1::rat) \<le> of_int large / of_int sf"
proof -
  have "(of_int sf :: rat) \<le> of_int large" using assms(2) by (simp only: of_int_le_iff)
  then show ?thesis using assms(1) by (simp add: le_divide_eq)
qed

lemma mapping_divisor_pos:
  assumes "0 < sf" and "sf \<le> large" and "mapping_divisor sf large = Inr d"
  shows "0 < d"
proof -
  let ?x = "of_int large / of_int sf :: rat"
  from assms(1,3) obtain a where a: "to_float ?x = Inr a" and d: "d = math_floor a"
    by (auto simp: mapping_divisor_def int_truediv_def split: sum.splits)
  have "2 powi 0 \<le> float_round ?x"
    using quotient_ge_one[OF assms(1,2)] by (intro float_round_lower) simp_all
  then have "1 \<le> a" using to_float_Inr[OF a] by simp
  then have "1 \<le> \<lfloor>a\<rfloor>" by (simp add: le_floor_iff)
  then show ?thesis by (simp add: d math_floor_def)
qed

lemma map_axis_error:
  assumes "0 < sf" and "sf \<le> large" and "map_axis sf large small = Inl e"
  shows "e = OverflowError"
proof -
  let ?x = "of_int large / of_int sf :: rat"
  have it: "int_truediv large sf = to_float ?x" using assms(1) by (simp add: int_truediv_def)
  show ?thesis
  proof (cases "to_float ?x")
    case (Inl e')
    then show ?thesis using assms(3) to_float_Inl[OF Inl]
      by (simp add: map_axis_def it)
  next
    case (Inr a)
    then have md: "mapping_divisor sf large = Inr (math_floor a)"
      by (simp add: mapping_divisor_def it)
    have dpos: "0 < math_floor a" using assms(1,2) md by (rule mapping_divisor_pos)
    show ?thesis
    proof (cases "float_of_int (math_floor a)")
      case (Inl e')
      then show ?thesis using assms(3) to_float_Inl[of "of_int (math_floor a)" e']
        by (simp add: map_axis_def it Inr md float_of_int_def)
    next
      case f: (Inr f)
      have "2 powi 0 \<le> float_round (of_int (math_floor a))"
        using dpos by (intro float_round_lower) simp_all
      then have fpos: "f \<noteq> 0" using to_float_Inr[of "of_int (math_floor a)" f] f
        by (simp add: float_of_int_def)
      show ?thesis
        using assms(3) fpos
        by (auto simp: map_axis_def it Inr md f split: sum.splits
            dest: float_of_int_Inl float_mul_Inl float_truediv_Inl)
    qed
  qed
qed

lemma mapper_fails_below_scale:
  "mapping_divisor SCALE_FACTOR 31 = Inr 0
   \<and> small_to_large_mapping SCALE_FACTOR (1, 1) (31, 64) = Inl ZeroDivisionError"
  by code_simp


lemma floor_unique_between:
  "of_int k \<le> (y::rat) \<Longrightarrow> y < of_int k + 1 \<Longrightarrow> \<lfloor>y\<rfloor> = k"
  by (simp add: floor_unique)

lemma powi_1024_large: "(2::rat) ^ 53 < 2 powi 1024"
proof -
  have "(2::rat) ^ 53 = 2 powi 53" by simp
  also have "\<dots> < 2 powi 1024" by (rule powi2_strict_mono) simp
  finally show ?thesis .
qed

lemma powi_m1022_small: "(2::rat) powi (- 1022) \<le> 1 / 2 ^ 53"
proof -
  have "(2::rat) powi (- 1022) \<le> 2 powi (- 53)" by (rule powi2_mono) simp
  also have "\<dots> = 1 / 2 ^ 53" by (simp add: power_int_minus field_simps)
  finally show ?thesis .
qed

lemma frac_aux1: "0 < (s::rat) \<Longrightarrow> l < c \<Longrightarrow> 0 < c \<Longrightarrow> l / s / c < 1 / s"
  by (metis divide_divide_eq_left divide_less_eq_1_pos divide_strict_right_mono mult.commute)

lemma frac_aux2: "1 \<le> (l::rat) \<Longrightarrow> 0 < s \<Longrightarrow> s < c \<Longrightarrow> 1 / c < l / s"
  by (simp add: frac_less2)

lemma int_truediv_floor:
  assumes sf: "0 < sf" "sf < 2 ^ 53" and lw: "0 \<le> lw" "lw < 2 ^ 53"
  shows "int_truediv lw sf = Inr (float_round (of_int lw / of_int sf))
         \<and> math_floor (float_round (of_int lw / of_int sf)) = lw div sf"
proof -
  let ?s = "of_int sf :: rat"
  let ?x = "of_int lw / ?s"
  let ?k = "lw div sf"
  let ?r = "lw mod sf"
  have s: "0 < ?s" using sf(1) by simp
  have it: "int_truediv lw sf = to_float ?x" using sf(1) by (simp add: int_truediv_def)
  have r: "0 \<le> ?r" "?r < sf" using sf(1) by simp_all
  have k0: "0 \<le> ?k" using lw(1) sf(1) by (simp add: pos_imp_zdiv_nonneg_iff)
  have kle: "?k \<le> lw" using lw(1) sf(1) by (metis div_0 int_div_le_self leI nle_le)
  have "lw = ?k * sf + ?r" by simp
  then have "(of_int lw :: rat) = of_int (?k * sf + ?r)" by (rule arg_cong)
  then have "(of_int lw :: rat) = of_int ?k * ?s + of_int ?r"
    by (simp only: of_int_add of_int_mult)
  then have x: "?x = of_int ?k + of_int ?r / ?s" using s by (simp add: field_simps)
  have fl: "of_int ?k \<le> float_round ?x \<and> float_round ?x < of_int ?k + 1"
  proof (cases "?r = 0")
    case True
    then have xe: "?x = of_int ?k" using x by simp
    have "\<bar>?k\<bar> < 2 ^ 53" using k0 kle lw(2) by simp
    then have "float_round (of_int ?k :: rat) = of_int ?k" by (rule float_round_of_int)
    then show ?thesis unfolding xe by simp
  next
    case False
    with r have r1: "1 \<le> ?r" by simp
    then have lw1: "1 \<le> lw" using lw(1)
      by (metis int_one_le_iff_zero_less linorder_le_less_linear mod_0 nle_le)
    define e where "e = 1 / ?s"
    have e: "0 < e" using s by (simp add: e_def)
    have "(1::rat) \<le> of_int ?r" using r1 by (simp only: of_int_1_le_iff)
    then have lo: "of_int ?k + e \<le> ?x"
      unfolding x e_def using s by (simp add: divide_right_mono)
    have "?r \<le> sf - 1" using r(2) by simp
    then have "(of_int ?r :: rat) \<le> of_int (sf - 1)" by (simp only: of_int_le_iff)
    then have "of_int ?r / ?s \<le> of_int (sf - 1) / ?s" using s by (simp add: divide_right_mono)
    also have "\<dots> = 1 - e" using s by (simp add: e_def field_simps)
    finally have hi: "?x \<le> of_int ?k + 1 - e" unfolding x by simp
    have k0r: "(0::rat) \<le> of_int ?k" using k0 by simp
    have xpos: "0 < ?x" using lo e k0r by linarith
    have l1: "(1::rat) \<le> of_int lw" using lw1 by (simp only: of_int_1_le_iff)
    have "?s < of_int (2 ^ 53)" using sf(2) by (simp only: of_int_less_iff)
    then have sc: "?s < 2 ^ 53" by simp
    have "(of_int lw :: rat) < of_int (2 ^ 53)" using lw(2) by (simp only: of_int_less_iff)
    then have lc: "(of_int lw :: rat) < 2 ^ 53" by simp
    have "1 / 2 ^ 53 < ?x" using l1 s sc by (rule frac_aux2)
    then have "2 powi (- 1022) \<le> \<bar>?x\<bar>" using powi_m1022_small xpos by linarith
    then have "\<bar>float_round ?x - ?x\<bar> \<le> \<bar>?x\<bar> / 2 ^ 53" by (rule float_round_relative)
    moreover have "\<bar>?x\<bar> / 2 ^ 53 < e"
    proof -
      have "?x / 2 ^ 53 < 1 / ?s" using s lc by (rule frac_aux1) simp
      moreover have "\<bar>?x\<bar> = ?x" using xpos by (rule abs_of_pos)
      ultimately show ?thesis by (simp only: e_def)
    qed
    ultimately have "\<bar>float_round ?x - ?x\<bar> < e" by linarith
    then show ?thesis using lo hi by linarith
  qed
  have "(of_int ?k :: rat) + 1 \<le> 2 ^ 53"
  proof -
    have "?k + 1 \<le> 2 ^ 53" using kle lw(2) by simp
    then have "(of_int (?k + 1) :: rat) \<le> of_int (2 ^ 53)" by (simp only: of_int_le_iff)
    then show ?thesis by simp
  qed
  moreover have "(0::rat) \<le> of_int ?k" using k0 by simp
  ultimately have "\<bar>float_round ?x\<bar> < 2 powi 1024"
    using fl powi_1024_large by linarith
  then have "to_float ?x = Inr (float_round ?x)" by (rule to_float_finite)
  moreover have "\<lfloor>float_round ?x\<rfloor> = ?k"
    using fl by (intro floor_unique_between) simp_all
  ultimately show ?thesis by (simp add: it math_floor_def)
qed

lemma prod_err:
  fixes A B K L S P :: rat
  assumes "0 < S" "0 < K" "0 < P" "S * K \<le> L"
    and a: "\<bar>A - L / S\<bar> \<le> L / S / P"
    and b: "\<bar>B - A / K\<bar> \<le> 1 / P"
  shows "\<bar>B * (S * K) - L\<bar> \<le> 2 * L / P"
proof -
  have "B * (S * K) - L = (B - A / K) * (S * K) + (A - L / S) * S"
    using assms(1,2) by (simp add: field_simps)
  then have "\<bar>B * (S * K) - L\<bar> \<le> \<bar>B - A / K\<bar> * (S * K) + \<bar>A - L / S\<bar> * S"
    using assms(1,2) by (smt (verit) abs_mult abs_of_pos abs_triangle_ineq mult_pos_pos)
  also have "\<dots> \<le> 1 / P * (S * K) + L / S / P * S"
    using a b assms(1,2) by (intro add_mono mult_right_mono) simp_all
  also have "\<dots> = (S * K) / P + L / P"
    using assms(1) by simp
  also have "\<dots> \<le> L / P + L / P"
  proof -
    have "S * K / P \<le> L / P" using assms(3,4) by (intro divide_right_mono) simp_all
    then show ?thesis by simp
  qed
  also have "\<dots> = 2 * L / P" by simp
  finally show ?thesis .
qed

lemma round_half_even_near_aux:
  fixes r z :: int and y :: rat
  assumes "\<bar>of_int r - y\<bar> \<le> 1 / 2" and "\<bar>y - of_int z\<bar> < 1 / 2"
  shows "r = z"
proof -
  have "\<bar>(of_int r :: rat) - of_int z\<bar> < 1" using assms by linarith
  then have "(of_int \<bar>r - z\<bar> :: rat) < 1" by simp
  then have "\<bar>r - z\<bar> < 1" by (simp only: of_int_less_1_iff)
  then show ?thesis by simp
qed


lemma round_half_even_near:
  assumes "\<bar>y - of_int z\<bar> < 1 / 2"
  shows "round_half_even y = z"
  using round_half_even_error[of y] assms by (rule round_half_even_near_aux)

lemma of_int_less_pow2:
  "k < 2 ^ n \<Longrightarrow> (of_int k :: rat) < 2 ^ n"
proof -
  assume "k < 2 ^ n"
  then have "(of_int k :: rat) < of_int (2 ^ n)" by (simp only: of_int_less_iff)
  then show ?thesis by simp
qed

lemma float_of_int_exact:
  assumes "\<bar>k\<bar> < 2 ^ 53"
  shows "float_of_int k = Inr (of_int k)"
proof -
  have fr: "float_round (of_int k :: rat) = of_int k" using assms by (rule float_round_of_int)
  have "(of_int \<bar>k\<bar> :: rat) < 2 ^ 53" using assms by (rule of_int_less_pow2)
  then have "\<bar>float_round (of_int k :: rat)\<bar> < 2 powi 1024"
    using powi_1024_large by (simp add: fr)
  then have "to_float (of_int k) = Inr (float_round (of_int k))" by (rule to_float_finite)
  then show ?thesis by (simp add: float_of_int_def fr)
qed

lemma below_pow53_finite: "\<bar>y::rat\<bar> \<le> 2 ^ 53 \<Longrightarrow> \<bar>y\<bar> < 2 powi 1024"
  using powi_1024_large by linarith

lemma pow50_over_pow53: "(2::rat) ^ 50 / 2 ^ 53 = 1 / 8"
  by simp

lemma map_axis_corner:
  assumes sf: "0 < sf" "sf \<le> lw" and lw: "lw < 2 ^ 50"
  shows "map_axis sf lw (lw div sf) = Inr lw"
proof -
  let ?s = "of_int sf :: rat"
  let ?l = "of_int lw :: rat"
  let ?x = "?l / ?s"
  let ?k = "lw div sf"
  let ?a = "float_round ?x"
  have s: "0 < ?s" using sf(1) by simp
  have lw0: "0 \<le> lw" using sf by simp
  have lw53: "lw < 2 ^ 53" using lw by simp
  have sf53: "sf < 2 ^ 53" using sf(2) lw53 by simp
  note q = int_truediv_floor[OF sf(1) sf53 lw0 lw53]
  have it: "int_truediv lw sf = Inr ?a" using q by simp
  have fl: "\<lfloor>?a\<rfloor> = ?k" using q by (simp add: math_floor_def)
  have md: "mapping_divisor sf lw = Inr ?k"
    by (simp add: mapping_divisor_def it math_floor_def fl)
  have k1: "1 \<le> ?k" using sf int_one_le_iff_zero_less pos_imp_zdiv_pos_iff by blast
  have kle: "?k \<le> lw" using lw0 sf(1) by (metis div_0 int_div_le_self leI nle_le)
  have k53: "\<bar>?k\<bar> < 2 ^ 53" using k1 kle lw53 by simp
  have fk: "float_of_int ?k = Inr (of_int ?k)" using k53 by (rule float_of_int_exact)
  let ?K = "of_int ?k :: rat"
  have K1: "1 \<le> ?K" using k1 by (simp only: of_int_1_le_iff)
  have aK: "?K \<le> ?a" "?a < ?K + 1"
    using fl by (simp_all add: floor_eq_iff)
  have x1: "1 \<le> ?x" using sf by (rule quotient_ge_one)
  have lpos: "1 \<le> ?l"
  proof -
    have "1 \<le> lw" using sf by simp
    then show ?thesis by (simp only: of_int_1_le_iff)
  qed
  have small: "(1::rat) / 2 ^ 53 \<le> 3 / 4" by simp
  have "2 powi (- 1022) \<le> \<bar>?x\<bar>"
    using x1 powi_m1022_small small by linarith
  then have "\<bar>?a - ?x\<bar> \<le> \<bar>?x\<bar> / 2 ^ 53" by (rule float_round_relative)
  then have ea: "\<bar>?a - ?l / ?s\<bar> \<le> ?l / ?s / 2 ^ 53" using x1 by simp
  let ?y = "?a / ?K"
  have y: "1 \<le> ?y" "?y < 2"
    using aK K1 by (simp_all add: field_simps)
  have ay: "\<bar>?y\<bar> = ?y" using y(1) by (intro abs_of_nonneg) linarith
  have p01: "(2::rat) powi 0 = 1" "(2::rat) powi (0 + 1) = 2" by simp_all
  have yb: "2 powi 0 \<le> \<bar>?y\<bar>" "\<bar>?y\<bar> < 2 powi (0 + 1)"
    unfolding ay p01 using y by blast+
  let ?b = "float_round ?y"
  have eb0: "\<bar>?b - ?y\<bar> \<le> 2 powi (0 - 53)"
    using yb by (rule float_round_error) simp
  have eb: "\<bar>?b - ?a / ?K\<bar> \<le> 1 / 2 ^ 53"
    using eb0 by (simp add: power_int_minus field_simps)
  have "\<bar>?b\<bar> < 3" using eb y small by linarith
  moreover have "(3::rat) \<le> 2 ^ 53" by simp
  ultimately have "\<bar>?b\<bar> \<le> 2 ^ 53" by linarith
  then have "\<bar>?b\<bar> < 2 powi 1024" by (rule below_pow53_finite)
  then have tb: "to_float ?y = Inr ?b" by (rule to_float_finite)
  have Knz: "?K \<noteq> 0" using K1 by simp
  have ft: "float_truediv ?a ?K = Inr ?b" using Knz tb by (simp add: float_truediv_def)
  have skl: "sf * ?k \<le> lw" using sf(1) lw0
    by (metis mult.commute mult_div_mod_eq le_add_same_cancel1 pos_mod_sign)
  have sk0: "0 < sf * ?k" using sf(1) k1 by simp
  have sk53: "\<bar>sf * ?k\<bar> < 2 ^ 53" using skl sk0 lw53 by simp
  have fc: "float_of_int (sf * ?k) = Inr (of_int (sf * ?k))" using sk53 by (rule float_of_int_exact)
  have SKL: "?s * ?K \<le> ?l"
  proof -
    have "(of_int (sf * ?k) :: rat) \<le> of_int lw" using skl by (simp only: of_int_le_iff)
    then show ?thesis by simp
  qed
  let ?z = "?b * (?s * ?K)"
  have Kpos: "0 < ?K" using K1 by simp
  have ez: "\<bar>?z - ?l\<bar> \<le> 2 * ?l / 2 ^ 53"
    using s Kpos _ SKL ea eb by (rule prod_err) simp
  have l50: "?l < 2 ^ 50" using lw by (rule of_int_less_pow2)
  have "2 * ?l / 2 ^ 53 < 2 * (2 ^ 50 / 2 ^ 53)"
    using l50 by (simp add: divide_strict_right_mono)
  then have ez': "\<bar>?z - ?l\<bar> < 1 / 4" using ez unfolding pow50_over_pow53 by linarith
  have zlo: "3 / 4 < ?z" using ez' lpos by linarith
  have "2 powi (- 1022) \<le> \<bar>?z\<bar>"
    using zlo powi_m1022_small small by linarith
  then have "\<bar>float_round ?z - ?z\<bar> \<le> \<bar>?z\<bar> / 2 ^ 53" by (rule float_round_relative)
  moreover have "\<bar>?z\<bar> / 2 ^ 53 < 3 / 16"
  proof -
    have "\<bar>?z\<bar> < 2 ^ 50 + 1 / 4" using ez' l50 zlo by linarith
    then have "\<bar>?z\<bar> / 2 ^ 53 < (2 ^ 50 + 1 / 4) / 2 ^ 53"
      by (simp add: divide_strict_right_mono)
    also have "\<dots> \<le> 3 / 16" by simp
    finally show ?thesis .
  qed
  ultimately have ed: "\<bar>float_round ?z - ?l\<bar> < 1 / 2" using ez' by linarith
  have "\<bar>float_round ?z\<bar> < 2 ^ 50 + 1" using ed l50 lpos by linarith
  moreover have "(2::rat) ^ 50 + 1 \<le> 2 ^ 53" by simp
  ultimately have "\<bar>float_round ?z\<bar> \<le> 2 ^ 53" by linarith
  then have "\<bar>float_round ?z\<bar> < 2 powi 1024" by (rule below_pow53_finite)
  then have tz: "to_float ?z = Inr (float_round ?z)" by (rule to_float_finite)
  have fm: "float_mul ?b (?s * ?K) = Inr (float_round ?z)"
    using tz by (simp add: float_mul_def)
  have pr: "py_round (float_round ?z) = lw"
    unfolding py_round_def using ed by (rule round_half_even_near)
  show ?thesis
    by (simp add: map_axis_def it md fk ft fc fm pr)
qed

section \<open>Claims about the coordinate mapper\<close>

lemma mapping_divisor_exact:
  assumes "0 < sf" and "sf \<le> large" and "large < 2 ^ 53"
  shows "mapping_divisor sf large = Inr (large div sf)"
proof -
  have "sf < 2 ^ 53" "0 \<le> large" using assms by simp_all
  from int_truediv_floor[OF assms(1) this assms(3)] show ?thesis
    by (simp add: mapping_divisor_def)
qed

text \<open>
  Claim C5 (coordinate mapping boundary), as amended. For a positive scale factor and
  large dimensions from the scale factor up to, but not including, \<open>2 ^ 50\<close>, the corner
  \<^verbatim>\<open>(floor(large_w / SCALE_FACTOR), floor(large_h / SCALE_FACTOR))\<close> that the pipeline computes
  is the pair of integer quotients, and \<^verbatim>\<open>small_to_large_mapping\<close> sends it back to exactly
  \<open>(large_w, large_h)\<close>. The witness is the pair of the claim: \<open>(1560, 3384)\<close> is mapped back
  to \<open>(49920, 108288)\<close>.
\<close>

theorem corner_maps_back:
  assumes "0 < sf" and "sf \<le> large_w" and "large_w < 2 ^ 50"
    and "sf \<le> large_h" and "large_h < 2 ^ 50"
  shows "mapping_divisor sf large_w = Inr (large_w div sf)
         \<and> mapping_divisor sf large_h = Inr (large_h div sf)
         \<and> small_to_large_mapping sf (large_w div sf, large_h div sf) (large_w, large_h)
             = Inr (large_w, large_h)"
proof -
  have "large_w < 2 ^ 53" "large_h < 2 ^ 53" using assms(3,5) by simp_all
  then have "mapping_divisor sf large_w = Inr (large_w div sf)"
    "mapping_divisor sf large_h = Inr (large_h div sf)"
    using assms(1,2,4) by (simp_all add: mapping_divisor_exact)
  moreover have "map_axis sf large_w (large_w div sf) = Inr large_w"
    using assms(1,2,3) by (rule map_axis_corner)
  moreover have "map_axis sf large_h (large_h div sf) = Inr large_h"
    using assms(1,4,5) by (rule map_axis_corner)
  ultimately show ?thesis by (simp add: small_to_large_mapping_def)
qed

theorem corner_maps_back_witness:
  "(0::int) < 32 \<and> (32::int) \<le> 49920 \<and> (49920::int) < 2 ^ 50
   \<and> (32::int) \<le> 108288 \<and> (108288::int) < 2 ^ 50
   \<and> mapping_divisor 32 49920 = Inr 1560 \<and> mapping_divisor 32 108288 = Inr 3384
   \<and> small_to_large_mapping 32 (1560, 3384) (49920, 108288) = Inr (49920, 108288)"
  using corner_maps_back[of 32 49920 108288] by simp

text \<open>
  Without the bound the claim fails: for the width \<open>2 ^ 60 + 100\<close> the float quotient is
  \<open>2 ^ 55\<close>, and the corner is mapped back to \<open>2 ^ 60\<close>, one hundred pixels away, whether
  the corner is the one the float division gives or the exact integer quotient.
\<close>

theorem corner_maps_back_counterexample:
  "mapping_divisor SCALE_FACTOR (2 ^ 60 + 100) = Inr (2 ^ 55)
   \<and> small_to_large_mapping SCALE_FACTOR (2 ^ 55, 1) (2 ^ 60 + 100, 32) = Inr (2 ^ 60, 32)
   \<and> small_to_large_mapping SCALE_FACTOR ((2 ^ 60 + 100) div 32, 1) (2 ^ 60 + 100, 32)
       = Inr (2 ^ 60, 32)
   \<and> 1 < \<bar>(2 ^ 60 + 100) - (2 ^ 60 :: int)\<bar>"
  by code_simp

text \<open>
  Claim C10 (the mapper's divisor). When both large dimensions are at least the positive
  scale factor, each divisor \<^verbatim>\<open>math.floor(large / SCALE_FACTOR)\<close> that is computed is positive,
  it is the integer quotient for every dimension below \<open>2 ^ 53\<close>, and the mapper never raises
  \<^verbatim>\<open>ZeroDivisionError\<close> (for dimensions too large for a float the division itself raises
  \<^verbatim>\<open>OverflowError\<close>). With the width 31, below the scale factor 32, the divisor is 0 and
  the mapper raises \<^verbatim>\<open>ZeroDivisionError\<close>.
\<close>

theorem mapper_division_by_zero:
  "(0 < sf \<and> sf \<le> large_w \<and> sf \<le> large_h \<longrightarrow>
      (\<forall>d. mapping_divisor sf large_w = Inr d \<longrightarrow> 0 < d)
      \<and> (\<forall>d. mapping_divisor sf large_h = Inr d \<longrightarrow> 0 < d)
      \<and> (large_w < 2 ^ 53 \<longrightarrow> mapping_divisor sf large_w = Inr (large_w div sf))
      \<and> (large_h < 2 ^ 53 \<longrightarrow> mapping_divisor sf large_h = Inr (large_h div sf))
      \<and> small_to_large_mapping sf small_pixel (large_w, large_h) \<noteq> Inl ZeroDivisionError)
   \<and> mapping_divisor SCALE_FACTOR 31 = Inr 0
   \<and> small_to_large_mapping SCALE_FACTOR (1, 1) (31, 64) = Inl ZeroDivisionError"
proof (intro conjI impI allI)
  fix d
  assume a: "0 < sf \<and> sf \<le> large_w \<and> sf \<le> large_h"
  show "0 < d" if "mapping_divisor sf large_w = Inr d"
    using a that by (auto intro: mapping_divisor_pos)
  show "0 < d" if "mapping_divisor sf large_h = Inr d"
    using a that by (auto intro: mapping_divisor_pos)
next
  assume a: "0 < sf \<and> sf \<le> large_w \<and> sf \<le> large_h" and "large_w < 2 ^ 53"
  then show "mapping_divisor sf large_w = Inr (large_w div sf)"
    by (simp add: mapping_divisor_exact)
next
  assume a: "0 < sf \<and> sf \<le> large_w \<and> sf \<le> large_h" and "large_h < 2 ^ 53"
  then show "mapping_divisor sf large_h = Inr (large_h div sf)"
    by (simp add: mapping_divisor_exact)
next
  assume a: "0 < sf \<and> sf \<le> large_w \<and> sf \<le> large_h"
  obtain small_x small_y where sp: "small_pixel = (small_x, small_y)" by (cases small_pixel)
  show "small_to_large_mapping sf small_pixel (large_w, large_h) \<noteq> Inl ZeroDivisionError"
  proof
    assume z: "small_to_large_mapping sf small_pixel (large_w, large_h) = Inl ZeroDivisionError"
    then have "map_axis sf large_w small_x = Inl ZeroDivisionError
               \<or> map_axis sf large_h small_y = Inl ZeroDivisionError"
      by (auto simp: small_to_large_mapping_def sp split: sum.splits)
    then show False
      using a map_axis_error[of sf large_w small_x ZeroDivisionError]
        map_axis_error[of sf large_h small_y ZeroDivisionError]
      by auto
  qed
next
  show "mapping_divisor SCALE_FACTOR 31 = Inr 0"
    using mapper_fails_below_scale by simp
  show "small_to_large_mapping SCALE_FACTOR (1, 1) (31, 64) = Inl ZeroDivisionError"
    using mapper_fails_below_scale by simp
qed

theorem mapper_division_by_zero_witness:
  "(0::int) < 32 \<and> (32::int) \<le> 49920 \<and> (32::int) \<le> 108288
   \<and> (49920::int) < 2 ^ 53 \<and> (108288::int) < 2 ^ 53
   \<and> mapping_divisor 32 49920 = Inr 1560 \<and> (0::int) < 1560
   \<and> mapping_divisor 32 108288 = Inr 3384 \<and> (0::int) < 3384
   \<and> small_to_large_mapping 32 (1560, 3384) (49920, 108288) \<noteq> Inl ZeroDivisionError"
proof -
  note t = mapper_division_by_zero[of 32 49920 108288 "(1560, 3384)", THEN conjunct1, rule_format]
  have h: "(0::int) < 32 \<and> (32::int) \<le> 49920 \<and> (32::int) \<le> 108288" by simp
  have w: "mapping_divisor 32 49920 = Inr 1560" using t[OF h] by simp
  have hh: "mapping_divisor 32 108288 = Inr 3384" using t[OF h] by simp
  have p: "0 < (1560::int)" "0 < (3384::int)"
    using t[OF h] w hh by blast+
  show ?thesis using t[OF h] w hh p by simp
qed

section \<open>Claims about the conversion of a slide\<close>

lemma div_pow53_le: "0 \<le> (y::rat) \<Longrightarrow> y / 2 ^ 53 \<le> y"
proof -
  assume "0 \<le> y"
  then have "y / 2 ^ 53 \<le> y / 1" by (intro divide_left_mono) simp_all
  then show ?thesis by simp
qed

lemma int_truediv_finite:
  assumes a: "0 \<le> a" and b: "0 < b" "b < 2 ^ 53" and ab: "a \<le> 2 ^ 52 * b"
  shows "int_truediv a b = Inr (float_round (of_int a / of_int b))"
proof -
  let ?x = "of_int a / of_int b :: rat"
  have it: "int_truediv a b = to_float ?x" using b(1) by (simp add: int_truediv_def)
  have B: "(0::rat) < of_int b" using b(1) by simp
  have B53: "(of_int b :: rat) < 2 ^ 53" using b(2) by (rule of_int_less_pow2)
  have "\<bar>float_round ?x\<bar> \<le> 2 ^ 53"
  proof (cases "a = 0")
    case True
    then show ?thesis by (simp add: float_round_def)
  next
    case False
    with a have "1 \<le> a" by simp
    then have A1: "(1::rat) \<le> of_int a" by (simp only: of_int_1_le_iff)
    have x0: "0 < ?x" using A1 B by simp
    have "1 / 2 ^ 53 < ?x" using A1 B B53 by (rule frac_aux2)
    then have "2 powi (- 1022) \<le> \<bar>?x\<bar>" using powi_m1022_small x0 by linarith
    then have e: "\<bar>float_round ?x - ?x\<bar> \<le> \<bar>?x\<bar> / 2 ^ 53" by (rule float_round_relative)
    have "\<bar>?x\<bar> / 2 ^ 53 \<le> \<bar>?x\<bar>" by (rule div_pow53_le) (rule abs_ge_zero)
    with e have e2: "\<bar>float_round ?x\<bar> \<le> 2 * ?x" using x0 by linarith
    have "(of_int a :: rat) \<le> of_int (2 ^ 52 * b)" using ab by (simp only: of_int_le_iff)
    then have "(of_int a :: rat) \<le> 2 ^ 52 * of_int b" by simp
    then have "?x \<le> 2 ^ 52" using B by (simp add: field_simps)
    with e2 show ?thesis by simp
  qed
  then have "\<bar>float_round ?x\<bar> < 2 powi 1024" by (rule below_pow53_finite)
  then show ?thesis unfolding it by (rule to_float_finite)
qed

lemma quotient_float_bounds:
  assumes a: "0 \<le> a" and b: "0 < b" "b < 2 ^ 53"
  shows "0 \<le> float_round (of_int a / of_int b)"
    and "float_round (of_int a / of_int b) \<le> 2 * (of_int a / of_int b)"
proof -
  let ?x = "of_int a / of_int b :: rat"
  have B: "(0::rat) < of_int b" using b(1) by simp
  have B53: "(of_int b :: rat) < 2 ^ 53" using b(2) by (rule of_int_less_pow2)
  have "0 \<le> float_round ?x \<and> float_round ?x \<le> 2 * ?x"
  proof (cases "a = 0")
    case True
    then show ?thesis by (simp add: float_round_def)
  next
    case False
    with a have "1 \<le> a" by simp
    then have A1: "(1::rat) \<le> of_int a" by (simp only: of_int_1_le_iff)
    have x0: "0 < ?x" using A1 B by simp
    have "1 / 2 ^ 53 < ?x" using A1 B B53 by (rule frac_aux2)
    then have "2 powi (- 1022) \<le> \<bar>?x\<bar>" using powi_m1022_small x0 by linarith
    then have e: "\<bar>float_round ?x - ?x\<bar> \<le> \<bar>?x\<bar> / 2 ^ 53" by (rule float_round_relative)
    have "\<bar>?x\<bar> / 2 ^ 53 \<le> \<bar>?x\<bar>" by (rule div_pow53_le) (rule abs_ge_zero)
    with e show ?thesis using x0 by linarith
  qed
  then show "0 \<le> float_round ?x" and "float_round ?x \<le> 2 * ?x" by simp_all
qed

text \<open>A side of the thumbnail is between 0 and twice the requested size.\<close>

lemma thumbnail_side:
  assumes d: "0 \<le> d" "d \<le> m" and m: "0 < m" "m < 2 ^ 53"
  shows "\<exists>t. int_truediv (THUMBNAIL_SIZE * d) m = Inr t \<and> 0 \<le> py_round t \<and> py_round t \<le> 600"
proof -
  let ?t = "float_round (of_int (THUMBNAIL_SIZE * d) / of_int m)"
  have n: "0 \<le> THUMBNAIL_SIZE * d" using d(1) by (simp add: THUMBNAIL_SIZE_def)
  have "THUMBNAIL_SIZE * d \<le> 2 ^ 52 * m"
    using d m(1) by (intro mult_mono) (simp_all add: THUMBNAIL_SIZE_def)
  then have 1: "int_truediv (THUMBNAIL_SIZE * d) m = Inr ?t"
    using n m by (intro int_truediv_finite) simp_all
  have M: "(0::rat) < of_int m" using m(1) by simp
  have "(of_int d :: rat) \<le> of_int m" using d(2) by (simp only: of_int_le_iff)
  then have "(of_int d :: rat) / of_int m \<le> 1" using M by (simp add: field_simps)
  then have q: "(of_int (THUMBNAIL_SIZE * d) :: rat) / of_int m \<le> 300"
    by (simp add: THUMBNAIL_SIZE_def)
  have lo: "of_int 0 \<le> ?t" using quotient_float_bounds(1)[OF n m] by simp
  have "?t \<le> 2 * (of_int (THUMBNAIL_SIZE * d) / of_int m)"
    using n m by (rule quotient_float_bounds(2))
  with q have hi: "?t \<le> of_int 600" by simp
  have "0 \<le> py_round ?t" unfolding py_round_def using lo by (rule round_half_even_ge)
  moreover have "py_round ?t \<le> 600" unfolding py_round_def using hi by (rule round_half_even_le)
  ultimately show ?thesis using 1 by blast
qed

lemma pil_resize_thumbnail:
  "0 \<le> w \<Longrightarrow> w \<le> 600 \<Longrightarrow> 0 \<le> h \<Longrightarrow> h \<le> 600 \<Longrightarrow>
   pil_resize (w, h) = (if 1 \<le> w \<and> 1 \<le> h then Inr (w, h) else Inl ValueError)"
  by (auto simp: pil_resize_def)

lemma pil_resize_ok:
  "1 \<le> w \<Longrightarrow> w < 2 ^ 31 \<Longrightarrow> 1 \<le> h \<Longrightarrow> h < 2 ^ 31 \<Longrightarrow> pil_resize (w, h) = Inr (w, h)"
  by (auto simp: pil_resize_def)

lemma below_pow53:
  fixes l sf :: int
  assumes sf: "0 < sf" "sf \<le> 2 ^ 22" and q: "l div sf < 2 ^ 31"
  shows "l < 2 ^ 53"
proof -
  have 1: "sf * (l div sf) + l mod sf = l" by (rule mult_div_mod_eq)
  have 2: "l mod sf < sf" using sf(1) by simp
  have 3: "sf * (l div sf + 1) = sf * (l div sf) + sf" by (simp add: algebra_simps)
  have "l < sf * (l div sf + 1)" using 1 2 3 by linarith
  also have "\<dots> \<le> sf * 2 ^ 31" using sf(1) q by (intro mult_left_mono) simp_all
  also have "\<dots> \<le> 2 ^ 22 * 2 ^ 31" using sf(2) by (intro mult_right_mono) simp_all
  finally show ?thesis by simp
qed

lemma training_thumbnail_path_shape:
  "get_training_thumbnail_path sf files n (PInt lw) (PInt lh) (PInt sw) (PInt sh) =
     Inr ((DEST_TRAIN_THUMBNAIL_DIR @ os_sep @ TRAIN_PREFIX @ zfill 3 (str_int n)) @ ''-''
          @ str_int sf @ ''x-'' @ str_int lw @ ''x'' @ str_int lh @ ''-'' @ str_int sw @ ''x''
          @ str_int sh @ ''.'' @ THUMBNAIL_EXT)"
  by (simp add: get_training_thumbnail_path_def DEST_TRAIN_SUFFIX_def)

text \<open>
  Outside that range nothing reaches the encoder: a small dimension of 0, or of \<open>2 ^ 31\<close>
  or more, makes the conversion raise before the paths are built, and nothing is saved.
\<close>

lemma small_dimension:
  assumes sf: "0 < sf" "sf \<le> 2 ^ 22" and l: "0 < l"
  shows "(\<exists>e. int_truediv l sf = Inl e)
         \<or> (\<exists>q. int_truediv l sf = Inr q
                \<and> (if l div sf < 2 ^ 31 then math_floor q = l div sf else 2 ^ 31 \<le> math_floor q))"
proof (cases "l div sf < 2 ^ 31")
  case True
  have "sf < 2 ^ 53" using sf(2) by simp
  moreover have "l < 2 ^ 53" using sf True by (rule below_pow53)
  moreover have "0 \<le> l" using l by simp
  ultimately show ?thesis using int_truediv_floor[of sf l] sf(1) True by simp
next
  case False
  let ?x = "of_int l / of_int sf :: rat"
  have S: "(0::rat) < of_int sf" using sf(1) by simp
  have 1: "sf * 2 ^ 31 \<le> sf * (l div sf)" using sf(1) False by (intro mult_left_mono) simp_all
  have 2: "sf * (l div sf) + l mod sf = l" by (rule mult_div_mod_eq)
  have 3: "0 \<le> l mod sf" using sf(1) by simp
  have "sf * 2 ^ 31 \<le> l" using 1 2 3 by linarith
  then have "(of_int (sf * 2 ^ 31) :: rat) \<le> of_int l" by (simp only: of_int_le_iff)
  then have "of_int sf * 2 ^ 31 \<le> (of_int l :: rat)" by simp
  then have "(2::rat) ^ 31 \<le> ?x" using S by (simp add: field_simps)
  then have "2 powi 31 \<le> ?x" by simp
  then have "2 powi 31 \<le> float_round ?x" by (rule float_round_lower) simp
  then have "(of_int (2 ^ 31) :: rat) \<le> float_round ?x" by simp
  then have fl: "2 ^ 31 \<le> math_floor (float_round ?x)"
    unfolding math_floor_def by (simp only: le_floor_iff)
  have it: "int_truediv l sf = to_float ?x" using sf(1) by (simp add: int_truediv_def)
  show ?thesis using to_float_cases[of ?x] False fl unfolding it by auto
qed

lemma pil_resize_refuses:
  "w < 1 \<or> 2 ^ 31 \<le> w \<or> h < 1 \<or> 2 ^ 31 \<le> h \<Longrightarrow> \<exists>e. pil_resize (w, h) = Inl e"
  by (auto simp: pil_resize_def)

lemma conversion_refused:
  assumes sf: "0 < sf" "sf \<le> 2 ^ 22"
    and opened: "openslide (get_training_slide_path n) = Opened slide"
    and dims: "dimensions slide = (large_w, large_h)"
    and pos: "0 < large_w" "0 < large_h"
    and out: "large_w < sf \<or> 2 ^ 31 \<le> large_w div sf \<or> large_h < sf \<or> 2 ^ 31 \<le> large_h div sf"
  shows "\<exists>e. training_slide_to_image sf openslide n fs = (Some e, fs)"
proof -
  have z: "l div sf < 1 \<longleftrightarrow> l < sf" if "0 < l" for l :: int
    using sf(1) that pos_imp_zdiv_pos_iff[of sf l] by linarith
  consider (ew) e where "int_truediv large_w sf = Inl e"
    | (eh) qw e where "int_truediv large_w sf = Inr qw" "int_truediv large_h sf = Inl e"
    | (ok) qw qh where "int_truediv large_w sf = Inr qw" "int_truediv large_h sf = Inr qh"
        "if large_w div sf < 2 ^ 31 then math_floor qw = large_w div sf else 2 ^ 31 \<le> math_floor qw"
        "if large_h div sf < 2 ^ 31 then math_floor qh = large_h div sf else 2 ^ 31 \<le> math_floor qh"
    using small_dimension[OF sf pos(1)] small_dimension[OF sf pos(2)] by auto
  then show ?thesis
  proof cases
    case ew
    then show ?thesis by (simp add: training_slide_to_image_def open_slide_def opened dims)
  next
    case eh
    then show ?thesis by (simp add: training_slide_to_image_def open_slide_def opened dims)
  next
    case ok
    have "math_floor qw < 1 \<or> 2 ^ 31 \<le> math_floor qw \<or> math_floor qh < 1 \<or> 2 ^ 31 \<le> math_floor qh"
      using out ok(3,4) z[OF pos(1)] z[OF pos(2)] by (auto split: if_splits)
    then obtain e where "pil_resize (math_floor qw, math_floor qh) = Inl e"
      using pil_resize_refuses by blast
    then show ?thesis
      by (simp add: training_slide_to_image_def open_slide_def opened dims ok(1,2) Let_def)
  qed
qed

text \<open>
  Claim C4 (floor consistency), amended. The scale factor is positive and at most \<open>2 ^ 22\<close>
  (the module's is 32). For a slide whose small dimensions \<open>large_w div sf\<close> and
  \<open>large_h div sf\<close>, the floors of the quotients, are at least 1 and below \<open>2 ^ 31\<close>, the
  resize is accepted, the conversion computes exactly these floors, and the image of that
  size is saved under the path that the encoder builds from them. The thumbnail path is
  built from the same values; the thumbnail is saved there, unless one of its sides
  rounds to 0, in which case the resize of \<^verbatim>\<open>save_thumbnail\<close> raises \<^verbatim>\<open>ValueError\<close> after the
  image has been saved.
\<close>

theorem floor_consistency:
  assumes sf: "0 < sf" "sf \<le> 2 ^ 22"
    and opened: "openslide (get_training_slide_path n) = Opened slide"
    and dims: "dimensions slide = (large_w, large_h)"
    and lw: "sf \<le> large_w" "large_w div sf < 2 ^ 31"
    and lh: "sf \<le> large_h" "large_h div sf < 2 ^ 31"
    and level: "best_level_for_downsample slide sf < length (level_dimensions slide)"
  shows "\<exists>img_path thumbnail_path tw th.
           get_training_image_path sf (map fst fs) n (PInt large_w) (PInt large_h)
               (PInt (large_w div sf)) (PInt (large_h div sf)) = Inr img_path
         \<and> get_training_thumbnail_path sf (map fst fs) n (PInt large_w) (PInt large_h)
               (PInt (large_w div sf)) (PInt (large_h div sf)) = Inr thumbnail_path
         \<and> int_truediv (THUMBNAIL_SIZE * (large_w div sf))
               (max (large_w div sf) (large_h div sf)) = Inr tw
         \<and> int_truediv (THUMBNAIL_SIZE * (large_h div sf))
               (max (large_w div sf) (large_h div sf)) = Inr th
         \<and> training_slide_to_image sf openslide n fs
             = (if 1 \<le> py_round tw \<and> 1 \<le> py_round th
                then (None, fs @ [(img_path, large_w div sf, large_h div sf),
                                  (thumbnail_path, py_round tw, py_round th)])
                else (Some ValueError, fs @ [(img_path, large_w div sf, large_h div sf)]))"
proof -
  let ?nw = "large_w div sf" and ?nh = "large_h div sf"
  let ?m = "max ?nw ?nh"
  obtain img_path where ip: "get_training_image_path sf (map fst fs) n (PInt large_w)
      (PInt large_h) (PInt ?nw) (PInt ?nh) = Inr img_path"
    by (simp add: training_image_path_shape)
  have ip': "\<And>files. get_training_image_path sf files n (PInt large_w)
      (PInt large_h) (PInt ?nw) (PInt ?nh) = Inr img_path"
    using ip by (simp add: training_image_path_shape)
  obtain thumbnail_path where tp: "get_training_thumbnail_path sf (map fst fs) n (PInt large_w)
      (PInt large_h) (PInt ?nw) (PInt ?nh) = Inr thumbnail_path"
    by (simp add: training_thumbnail_path_shape)
  have tp': "\<And>files. get_training_thumbnail_path sf files n (PInt large_w)
      (PInt large_h) (PInt ?nw) (PInt ?nh) = Inr thumbnail_path"
    using tp by (simp add: training_thumbnail_path_shape)
  have sf53: "sf < 2 ^ 53" using sf(2) by simp
  have w53: "large_w < 2 ^ 53" using sf lw(2) by (rule below_pow53)
  have h53: "large_h < 2 ^ 53" using sf lh(2) by (rule below_pow53)
  have w0: "0 \<le> large_w" and h0: "0 \<le> large_h" using sf(1) lw(1) lh(1) by simp_all
  have qw: "int_truediv large_w sf = Inr (float_round (of_int large_w / of_int sf))"
    "math_floor (float_round (of_int large_w / of_int sf)) = ?nw"
    using int_truediv_floor[OF sf(1) sf53 w0 w53] by simp_all
  have qh: "int_truediv large_h sf = Inr (float_round (of_int large_h / of_int sf))"
    "math_floor (float_round (of_int large_h / of_int sf)) = ?nh"
    using int_truediv_floor[OF sf(1) sf53 h0 h53] by simp_all
  have "0 < ?nw" "0 < ?nh"
    using sf(1) lw(1) lh(1) by (simp_all add: pos_imp_zdiv_pos_iff)
  then have n1: "1 \<le> ?nw" "1 \<le> ?nh" by simp_all
  have rs: "pil_resize (?nw, ?nh) = Inr (?nw, ?nh)"
    using n1(1) lw(2) n1(2) lh(2) by (rule pil_resize_ok)
  have run: "training_slide_to_image sf openslide n fs
             = save_thumbnail (?nw, ?nh) THUMBNAIL_SIZE thumbnail_path (fs @ [(img_path, ?nw, ?nh)])"
    using level
    by (simp add: training_slide_to_image_def open_slide_def opened dims qw qh rs ip' tp' Let_def)
  have m: "0 < ?m" "?m < 2 ^ 53" using n1 lw(2) lh(2) by simp_all
  obtain tw where tw: "int_truediv (THUMBNAIL_SIZE * ?nw) ?m = Inr tw"
    "0 \<le> py_round tw" "py_round tw \<le> 600"
    using thumbnail_side[of ?nw ?m] n1 m by auto
  obtain th where th: "int_truediv (THUMBNAIL_SIZE * ?nh) ?m = Inr th"
    "0 \<le> py_round th" "py_round th \<le> 600"
    using thumbnail_side[of ?nh ?m] n1 m by auto
  have "save_thumbnail (?nw, ?nh) THUMBNAIL_SIZE thumbnail_path (fs @ [(img_path, ?nw, ?nh)])
        = (if 1 \<le> py_round tw \<and> 1 \<le> py_round th
           then (None, fs @ [(img_path, ?nw, ?nh), (thumbnail_path, py_round tw, py_round th)])
           else (Some ValueError, fs @ [(img_path, ?nw, ?nh)]))"
    by (simp add: save_thumbnail_def tw(1) th(1)
        pil_resize_thumbnail[OF tw(2) tw(3) th(2) th(3)])
  with run have "training_slide_to_image sf openslide n fs
        = (if 1 \<le> py_round tw \<and> 1 \<le> py_round th
           then (None, fs @ [(img_path, ?nw, ?nh), (thumbnail_path, py_round tw, py_round th)])
           else (Some ValueError, fs @ [(img_path, ?nw, ?nh)]))"
    by simp
  with ip tp tw(1) th(1) show ?thesis by blast
qed

theorem floor_consistency_witness:
  "(0::int) < 32 \<and> (32::int) \<le> 2 ^ 22
   \<and> (32::int) \<le> 49920 \<and> (49920::int) div 32 < 2 ^ 31
   \<and> (32::int) \<le> 108288 \<and> (108288::int) div 32 < 2 ^ 31
   \<and> training_slide_to_image 32
        (\<lambda>f. Opened \<lparr>dimensions = (49920, 108288),
                         level_dimensions = [(49920, 108288), (12480, 27072), (3120, 6768)],
                         best_level_for_downsample = (\<lambda>d. 2)\<rparr>) 5 []
      = (None,
         [(''../data/training_png/TUPAC-TR-005-32x-49920x108288-1560x3384.png'', 1560, 3384),
          (''../data/training_thumbnail_jpg/TUPAC-TR-005-32x-49920x108288-1560x3384.jpg'',
           138, 300)])"
proof -
  have s: "str_int 49920 = ''49920''" "str_int 108288 = ''108288''" "str_int 1560 = ''1560''"
    "str_int 3384 = ''3384''" "str_int 32 = ''32''"
    by (simp_all add: str_int_def digits.simps)
  have pad: "zfill 3 (str_int 5) = ''005''"
    by (simp add: zfill_def str_int_def digits.simps numeral_2_eq_2)
  have ip: "get_training_image_path 32 [] 5 (PInt 49920) (PInt 108288) (PInt 1560) (PInt 3384)
            = Inr ''../data/training_png/TUPAC-TR-005-32x-49920x108288-1560x3384.png''"
    by (simp add: get_training_image_path_def pad s DEST_TRAIN_DIR_def BASE_DIR_def
        os_sep_def TRAIN_PREFIX_def DEST_TRAIN_EXT_def DEST_TRAIN_SUFFIX_def)
  have tp: "get_training_thumbnail_path 32 [] 5 (PInt 49920) (PInt 108288) (PInt 1560) (PInt 3384)
            = Inr ''../data/training_thumbnail_jpg/TUPAC-TR-005-32x-49920x108288-1560x3384.jpg''"
    by (simp add: get_training_thumbnail_path_def pad s DEST_TRAIN_THUMBNAIL_DIR_def BASE_DIR_def
        os_sep_def TRAIN_PREFIX_def THUMBNAIL_EXT_def DEST_TRAIN_SUFFIX_def)
  have t: "case int_truediv (300 * 1560) 3384 of Inl e \<Rightarrow> False | Inr t \<Rightarrow> py_round t = 138"
    "case int_truediv (300 * 3384) 3384 of Inl e \<Rightarrow> False | Inr t \<Rightarrow> py_round t = 300"
    by code_simp+
  have d: "(49920::int) div 32 = 1560" "(108288::int) div 32 = 3384" by simp_all
  from floor_consistency[of 32 "\<lambda>f. Opened \<lparr>dimensions = (49920, 108288),
      level_dimensions = [(49920, 108288), (12480, 27072), (3120, 6768)],
      best_level_for_downsample = (\<lambda>d. 2)\<rparr>" 5
      "\<lparr>dimensions = (49920, 108288),
      level_dimensions = [(49920, 108288), (12480, 27072), (3120, 6768)],
      best_level_for_downsample = (\<lambda>d. 2)\<rparr>" 49920 108288 "[]"]
  obtain img_path thumbnail_path tw th where
    r: "get_training_image_path 32 [] 5 (PInt 49920) (PInt 108288) (PInt 1560) (PInt 3384)
          = Inr img_path"
      "get_training_thumbnail_path 32 [] 5 (PInt 49920) (PInt 108288) (PInt 1560) (PInt 3384)
          = Inr thumbnail_path"
      "int_truediv (300 * 1560) 3384 = Inr tw"
      "int_truediv (300 * 3384) 3384 = Inr th"
      "training_slide_to_image 32
        (\<lambda>f. Opened \<lparr>dimensions = (49920, 108288),
                         level_dimensions = [(49920, 108288), (12480, 27072), (3120, 6768)],
                         best_level_for_downsample = (\<lambda>d. 2)\<rparr>) 5 []
       = (if 1 \<le> py_round tw \<and> 1 \<le> py_round th
          then (None, [(img_path, 1560, 3384), (thumbnail_path, py_round tw, py_round th)])
          else (Some ValueError, [(img_path, 1560, 3384)]))"
    unfolding d THUMBNAIL_SIZE_def by auto
  from r(1) ip have 1: "img_path = ''../data/training_png/TUPAC-TR-005-32x-49920x108288-1560x3384.png''"
    by simp
  from r(2) tp have 2: "thumbnail_path
      = ''../data/training_thumbnail_jpg/TUPAC-TR-005-32x-49920x108288-1560x3384.jpg''"
    by simp
  from t(1) r(3) have 3: "py_round tw = 138" by simp
  from t(2) r(4) have 4: "py_round th = 300" by simp
  show ?thesis using r(5) unfolding 1 2 3 4 by simp
qed

text \<open>
  The claim as stated, for every slide of positive dimensions, fails at both ends. A slide
  of 31 by 20 pixels has the small dimensions 0 by 0: the resize raises \<^verbatim>\<open>ValueError\<close>
  before the encoder is called, and nothing is saved. A slide of width \<open>2 ^ 36\<close> has the
  small width \<open>2 ^ 31\<close>: the resize raises \<^verbatim>\<open>OverflowError\<close>, and nothing is saved.
\<close>

theorem floor_consistency_counterexample:
  "training_slide_to_image 32
     (\<lambda>f. Opened \<lparr>dimensions = (31, 20), level_dimensions = [(31, 20)],
                      best_level_for_downsample = (\<lambda>d. 0)\<rparr>) 1 []
   = (Some ValueError, [])
   \<and> training_slide_to_image 32
     (\<lambda>f. Opened \<lparr>dimensions = (2 ^ 36, 64), level_dimensions = [(2 ^ 36, 64)],
                      best_level_for_downsample = (\<lambda>d. 0)\<rparr>) 1 []
   = (Some OverflowError, [])"
proof -
  have q: "int_truediv 31 32 = Inr (31 / 32)" "int_truediv 20 32 = Inr (5 / 8)"
    "int_truediv 68719476736 32 = Inr 2147483648" "int_truediv 64 32 = Inr 2"
    by code_simp+
  have f: "math_floor (31 / 32) = 0" "math_floor (5 / 8) = 0"
    "math_floor 2147483648 = 2147483648" "math_floor 2 = 2"
    by code_simp+
  have r: "pil_resize (0, 0) = Inl ValueError" "pil_resize (2147483648, 2) = Inl OverflowError"
    by (simp_all add: pil_resize_def)
  show ?thesis
    using q by (simp add: training_slide_to_image_def open_slide_def f r Let_def)
qed

section \<open>Claims about the work partition: fairness\<close>

text \<open>The quotient of the slide count by the process count, as a float.\<close>

lemma chunk_facts:
  assumes "1 \<le> w" and "w \<le> n" and "n \<le> 1000"
  defines "c \<equiv> float_round (of_int n / of_int w)"
  shows "int_truediv n w = Inr c"
    and "\<bar>c - of_int n / of_int w\<bar> \<le> of_int n / of_int w / 2 ^ 53"
    and "1 \<le> c"
proof -
  let ?x = "of_int n / of_int w :: rat"
  have w: "0 < w" "w < 2 ^ 53" using assms(1-3) by simp_all
  have n: "0 \<le> n" "n < 2 ^ 53" using assms(1-3) by simp_all
  show "int_truediv n w = Inr c"
    using int_truediv_floor[OF w n] by (simp add: c_def)
  have x1: "1 \<le> ?x" using w(1) assms(2) by (rule quotient_ge_one)
  have small: "(1::rat) / 2 ^ 53 \<le> 3 / 4" by simp
  have "2 powi (- 1022) \<le> \<bar>?x\<bar>" using x1 powi_m1022_small small by linarith
  then have "\<bar>float_round ?x - ?x\<bar> \<le> \<bar>?x\<bar> / 2 ^ 53" by (rule float_round_relative)
  then show "\<bar>c - ?x\<bar> \<le> ?x / 2 ^ 53" using x1 by (simp add: c_def)
  have "2 powi 0 \<le> float_round ?x" using x1 by (intro float_round_lower) simp_all
  then show "1 \<le> c" by (simp add: c_def)
qed

lemma delta_small: "0 < delta" "delta < 1 / 256"
  by (simp_all add: delta_def)

lemma product_near:
  fixes C X J T :: rat
  assumes cx: "\<bar>C - X\<bar> \<le> X / 2 ^ 53" and c1: "1 \<le> C"
    and j: "J = 0 \<or> 1 \<le> J" and t: "J * X \<le> 1000" and x: "0 \<le> X"
  shows "\<bar>float_round (J * C) - J * X\<bar> \<le> delta"
proof (cases "J = 0")
  case True
  then show ?thesis using delta_small by (simp add: float_round_def)
next
  case False
  with j have j1: "1 \<le> J" by simp
  have "\<bar>J * C - J * X\<bar> = J * \<bar>C - X\<bar>"
    using j1 by (simp add: abs_mult flip: right_diff_distrib)
  also have "\<dots> \<le> J * (X / 2 ^ 53)" using cx j1 by (intro mult_left_mono) simp_all
  also have "\<dots> = J * X / 2 ^ 53" by simp
  also have "\<dots> \<le> 1000 / 2 ^ 53" using t by (intro divide_right_mono) simp_all
  finally have e1: "\<bar>J * C - J * X\<bar> \<le> 1000 / 2 ^ 53" .
  have jc: "1 \<le> J * C" using j1 c1 by (metis mult_mono' mult_1 zero_le_one)
  have small: "(1::rat) / 2 ^ 53 \<le> 3 / 4" by simp
  have "2 powi (- 1022) \<le> \<bar>J * C\<bar>" using jc powi_m1022_small small by linarith
  then have "\<bar>float_round (J * C) - J * C\<bar> \<le> \<bar>J * C\<bar> / 2 ^ 53"
    by (rule float_round_relative)
  moreover have "\<bar>J * C\<bar> / 2 ^ 53 \<le> 1001 / 2 ^ 53"
  proof -
    have "(1000::rat) / 2 ^ 53 \<le> 1" by simp
    with e1 t jc have "\<bar>J * C\<bar> \<le> 1001" by linarith
    then show ?thesis by (intro divide_right_mono) simp_all
  qed
  ultimately have "\<bar>float_round (J * C) - J * X\<bar> \<le> 1000 / 2 ^ 53 + 1001 / 2 ^ 53"
    using e1 by linarith
  then show ?thesis by (simp add: delta_def)
qed


lemma floor_between:
  "of_int a \<le> (y::rat) \<Longrightarrow> y < of_int b \<Longrightarrow> a \<le> \<lfloor>y\<rfloor> \<and> \<lfloor>y\<rfloor> < b"
  by (simp add: le_floor_iff floor_less_iff)

lemma py_int_between:
  assumes "of_int a \<le> (y::rat)" and "y < of_int b" and "0 \<le> a"
  shows "a \<le> py_int y \<and> py_int y < b"
proof -
  have "(0::rat) \<le> of_int a" using assms(3) by simp
  then have "0 \<le> y" using assms(1) by linarith
  then show ?thesis using floor_between[OF assms(1,2)] by (simp add: py_int_def)
qed

lemma add_one_near:
  assumes "0 \<le> P" and "P \<le> 1001"
  shows "float_add P 1 = Inr (float_round (P + 1))"
    and "\<bar>float_round (P + 1) - (P + 1)\<bar> \<le> delta"
proof -
  have small: "(1::rat) / 2 ^ 53 \<le> 3 / 4" by simp
  have "2 powi (- 1022) \<le> \<bar>P + 1\<bar>" using assms(1) powi_m1022_small small by linarith
  then have "\<bar>float_round (P + 1) - (P + 1)\<bar> \<le> \<bar>P + 1\<bar> / 2 ^ 53"
    by (rule float_round_relative)
  moreover have "\<bar>P + 1\<bar> / 2 ^ 53 \<le> 1002 / 2 ^ 53"
    using assms by (intro divide_right_mono) simp_all
  moreover have "(1002::rat) / 2 ^ 53 \<le> delta" by (simp add: delta_def)
  ultimately show e: "\<bar>float_round (P + 1) - (P + 1)\<bar> \<le> delta" by linarith
  have "\<bar>float_round (P + 1)\<bar> \<le> 1003" using e assms delta_small by linarith
  moreover have "(1003::rat) \<le> 2 ^ 53" by simp
  ultimately have "\<bar>float_round (P + 1)\<bar> \<le> 2 ^ 53" by linarith
  then have "\<bar>float_round (P + 1)\<bar> < 2 powi 1024" by (rule below_pow53_finite)
  then show "float_add P 1 = Inr (float_round (P + 1))"
    unfolding float_add_def by (rule to_float_finite)
qed

lemma cut_fractional:
  assumes near: "\<bar>P - T\<bar> \<le> delta"
    and lo: "of_int K + 1 / 64 \<le> T" and hi: "T \<le> of_int K + 1 - 1 / 64"
    and K: "0 \<le> K" "K \<le> 1000"
  shows "py_int P = K" and "float_add P 1 = Inr (float_round (P + 1))"
    and "py_int (float_round (P + 1)) = K + 1"
proof -
  have Kr: "(0::rat) \<le> of_int K" "(of_int K :: rat) \<le> 1000" using K by simp_all
  have P: "of_int K < P" "P < of_int K + 1" using near lo hi delta_small by linarith+
  have "K \<le> py_int P \<and> py_int P < K + 1"
    using P K(1) by (intro py_int_between) simp_all
  then show "py_int P = K" by simp
  have P0: "0 \<le> P" "P \<le> 1001" using P Kr by linarith+
  note a = add_one_near[OF P0]
  show "float_add P 1 = Inr (float_round (P + 1))" by (rule a(1))
  have S: "of_int (K + 1) \<le> float_round (P + 1)" "float_round (P + 1) < of_int (K + 2)"
    using a(2) near lo hi delta_small by simp_all
  have "K + 1 \<le> py_int (float_round (P + 1)) \<and> py_int (float_round (P + 1)) < K + 2"
    using S K(1) by (intro py_int_between) simp_all
  then show "py_int (float_round (P + 1)) = K + 1" by simp
qed

lemma cut_near_integer:
  assumes near: "\<bar>P - of_int K\<bar> \<le> delta" and K: "1 \<le> K" "K \<le> 1000"
  shows "K - 1 \<le> py_int P" and "py_int P \<le> K"
    and "float_add P 1 = Inr (float_round (P + 1))"
    and "K \<le> py_int (float_round (P + 1))" and "py_int (float_round (P + 1)) \<le> K + 1"
proof -
  have Kr: "(1::rat) \<le> of_int K" "(of_int K :: rat) \<le> 1000"
    using K by simp_all
  have P: "of_int (K - 1) \<le> P" "P < of_int (K + 1)"
    using near delta_small by simp_all
  have "K - 1 \<le> py_int P \<and> py_int P < K + 1"
    using P K(1) by (intro py_int_between) simp_all
  then show "K - 1 \<le> py_int P" "py_int P \<le> K" by simp_all
  have P0: "0 \<le> P" "P \<le> 1001" using near Kr delta_small by linarith+
  note a = add_one_near[OF P0]
  show "float_add P 1 = Inr (float_round (P + 1))" by (rule a(1))
  have S: "of_int K \<le> float_round (P + 1)" "float_round (P + 1) < of_int (K + 2)"
    using a(2) near delta_small by simp_all
  have "K \<le> py_int (float_round (P + 1)) \<and> py_int (float_round (P + 1)) < K + 2"
    using S K(1) by (intro py_int_between) simp_all
  then show "K \<le> py_int (float_round (P + 1))" "py_int (float_round (P + 1)) \<le> K + 1"
    by simp_all
qed

lemma cut_exact:
  assumes K: "0 \<le> K" "K \<le> 1000"
  shows "py_int (of_int K) = K" and "float_add (of_int K) 1 = Inr (of_int (K + 1))"
    and "py_int (of_int (K + 1)) = K + 1"
proof -
  show "py_int (of_int K) = K" using K(1) by (simp add: py_int_def)
  show "py_int (of_int (K + 1)) = K + 1" using K(1) by (simp add: py_int_def)
  have "\<bar>K + 1\<bar> < 2 ^ 53" using K by simp
  then have "float_of_int (K + 1) = Inr (of_int (K + 1))" by (rule float_of_int_exact)
  then show "float_add (of_int K) 1 = Inr (of_int (K + 1))"
    by (simp add: float_of_int_def float_add_def)
qed

lemma div_step:
  fixes n w i :: int
  assumes w: "0 < w"
  shows "\<exists>d. (i * n) div w = ((i - 1) * n) div w + n div w + d
           \<and> (d = 0 \<or> d = 1)
           \<and> (((i - 1) * n) mod w = 0 \<longrightarrow> d = 0 \<and> (i * n) mod w = n mod w)
           \<and> ((i * n) mod w = 0 \<and> n mod w \<noteq> 0 \<longrightarrow> d = 1)
           \<and> (n mod w = 0 \<longrightarrow> d = 0)"
proof -
  let ?a = "(i - 1) * n"
  let ?f0 = "?a mod w" and ?r = "n mod w"
  let ?d = "(?f0 + ?r) div w"
  have sum: "i * n = ?a + n" by (simp add: algebra_simps)
  have b: "0 \<le> ?f0" "?f0 < w" "0 \<le> ?r" "?r < w" using w by simp_all
  have k: "(i * n) div w = ?a div w + n div w + ?d"
    unfolding sum by (rule div_add1_eq)
  have m: "(i * n) mod w = (?f0 + ?r) mod w"
    unfolding sum by (simp add: mod_add_eq)
  have dm: "?f0 + ?r = w * ?d + (i * n) mod w"
    unfolding m by simp
  have fm: "0 \<le> (i * n) mod w" "(i * n) mod w < w" using w by simp_all
  have d01: "?d = 0 \<or> ?d = 1"
  proof (cases "?f0 + ?r < w")
    case True
    then show ?thesis using b by (simp add: div_pos_pos_trivial)
  next
    case False
    then have ge: "w \<le> ?f0 + ?r" by simp
    have "(?f0 + ?r) div w = (?f0 + ?r - w) div w + 1" using w ge by (rule div_pos_geq)
    moreover have "(?f0 + ?r - w) div w = 0" using b ge by (intro div_pos_pos_trivial) linarith+
    ultimately show ?thesis by simp
  qed
  have c1: "?f0 = 0 \<longrightarrow> ?d = 0 \<and> (i * n) mod w = ?r"
    using b m w by (auto simp: div_pos_pos_trivial mod_pos_pos_trivial)
  have c2: "(i * n) mod w = 0 \<and> ?r \<noteq> 0 \<longrightarrow> ?d = 1"
    using b(1,3) d01 dm by force
  have c3: "?r = 0 \<longrightarrow> ?d = 0"
    using b w by (auto simp: div_pos_pos_trivial)
  show ?thesis by (rule exI[of _ "?d"]) (intro conjI k d01 c1 c2 c3)
qed


lemma cut_points:
  fixes n w j :: int
  assumes w1: "1 \<le> w" and w64: "w \<le> 64" and wn: "w \<le> n" and n1000: "n \<le> 1000"
    and j0: "0 \<le> j" and jw: "j \<le> w"
  defines "c \<equiv> float_round (of_int n / of_int w)"
    and "K \<equiv> (j * n) div w" and "f \<equiv> (j * n) mod w"
  shows "\<exists>P S. float_mul (of_int j) c = Inr P \<and> float_add P 1 = Inr S
           \<and> K - 1 \<le> py_int P \<and> py_int P \<le> K \<and> K \<le> py_int S \<and> py_int S \<le> K + 1
           \<and> (f \<noteq> 0 \<or> w dvd n \<longrightarrow> py_int P = K \<and> py_int S = K + 1)"
proof -
  let ?W = "of_int w :: rat" and ?J = "of_int j :: rat"
  let ?X = "of_int n / ?W"
  let ?P = "float_round (?J * c)"
  have W: "0 < ?W" "1 \<le> ?W" "?W \<le> 64" using w1 w64 by simp_all
  have wpos: "0 < w" using w1 by simp
  have npos: "0 \<le> n" using w1 wn by simp
  note cf = chunk_facts[OF w1 wn n1000, folded c_def]
  have J: "?J = 0 \<or> 1 \<le> ?J" using j0 by (cases "j = 0") simp_all
  have X0: "0 \<le> ?X" using npos W by simp
  have f: "0 \<le> f" "f < w" using wpos by (simp_all add: f_def)
  have jn: "j * n = K * w + f" by (simp add: K_def f_def)
  have jnle: "j * n \<le> w * n" using jw npos by (rule mult_right_mono)
  have K0: "0 \<le> K" using j0 npos wpos by (simp add: K_def pos_imp_zdiv_nonneg_iff)
  have Kn: "K \<le> n"
  proof -
    have "K \<le> (w * n) div w" unfolding K_def using jnle wpos by (intro zdiv_mono1) simp_all
    then show ?thesis using wpos by simp
  qed
  have K1000: "K \<le> 1000" using Kn n1000 by simp
  have T: "?J * ?X = of_int K + of_int f / ?W"
  proof -
    have "(of_int (j * n) :: rat) = of_int (K * w + f)" using jn by (rule arg_cong)
    then have "?J * of_int n = of_int K * ?W + of_int f"
      by (simp only: of_int_add of_int_mult)
    then show ?thesis using W by (simp add: field_simps)
  qed
  have Kr: "(0::rat) \<le> of_int K" "(of_int K :: rat) \<le> 1000" using K0 K1000 by simp_all
  have fr: "(0::rat) \<le> of_int f / ?W" "of_int f / ?W < 1"
    using f W by simp_all
  have T1000: "?J * ?X \<le> 1000"
  proof -
    have "(of_int (j * n) :: rat) \<le> of_int (w * n)" using jnle by (simp only: of_int_le_iff)
    then have "?J * of_int n \<le> ?W * of_int n" by simp
    then have "?J * ?X \<le> of_int n" using W by (simp add: field_simps)
    moreover have "(of_int n :: rat) \<le> 1000" using n1000 by simp
    ultimately show ?thesis by linarith
  qed
  have near: "\<bar>?P - ?J * ?X\<bar> \<le> delta"
    using cf(2,3) J T1000 X0 by (rule product_near)
  have T0: "0 \<le> ?J * ?X" using T Kr fr by linarith
  have "\<bar>?P\<bar> \<le> 1001" using near T1000 T0 delta_small by linarith
  moreover have "(1001::rat) \<le> 2 ^ 53" by simp
  ultimately have "\<bar>?P\<bar> \<le> 2 ^ 53" by linarith
  then have "\<bar>?P\<bar> < 2 powi 1024" by (rule below_pow53_finite)
  then have fm: "float_mul ?J c = Inr ?P" unfolding float_mul_def by (rule to_float_finite)
  show ?thesis
  proof (cases "w dvd n \<or> j = 0")
    case True
    have PK: "?P = of_int K"
    proof (cases "j = 0")
      case True
      then show ?thesis by (simp add: K_def float_round_def)
    next
      case False
      with True have d: "w dvd n" by simp
      let ?q = "n div w"
      have nq: "n = ?q * w" using d by simp
      have q0: "0 \<le> ?q" using npos wpos by (simp add: pos_imp_zdiv_nonneg_iff)
      have "?q \<le> n" using npos wpos by (metis div_0 int_div_le_self leI nle_le)
      then have q: "0 \<le> ?q" "?q \<le> 1000" using q0 n1000 by simp_all
      have X: "?X = of_int ?q"
        by (simp add: d of_int_div)
      have cq: "c = of_int ?q"
        using X q float_round_of_int[of ?q] unfolding c_def by simp
      have Kq: "K = j * ?q"
      proof -
        from d obtain k where k: "n = w * k" by (rule dvdE)
        have "?q = k" using wpos by (simp add: k)
        moreover have jk: "j * n = w * (j * k)" by (simp add: k)
        have "K = j * k" unfolding K_def jk using wpos by simp
        ultimately show ?thesis by simp
      qed
      have "j * ?q \<le> 64 * 1000" using j0 jw w64 q by (intro mult_mono) simp_all
      moreover have "0 \<le> j * ?q" using j0 q by simp
      ultimately have "\<bar>j * ?q\<bar> < 2 ^ 53"
        by simp
      then have "float_round (of_int (j * ?q) :: rat) = of_int (j * ?q)"
        by (rule float_round_of_int)
      then show ?thesis by (simp add: cq Kq)
    qed
    note e = cut_exact[OF K0 K1000]
    show ?thesis
      using fm e by (simp add: PK)
  next
    case False
    then have nd: "\<not> w dvd n" and j1: "1 \<le> j" using j0 by simp_all
    show ?thesis
    proof (cases "f = 0")
      case True
      have "w \<le> j * n" using j1 wn npos
        by (metis mult_le_cancel_right1 order_trans linorder_not_less mult.commute mult_1 mult_right_mono)
      then have K1: "1 \<le> K"
        using wpos jn True K0 by simp
      have "\<bar>?P - of_int K\<bar> \<le> delta" using near T True by simp
      note e = cut_near_integer[OF this K1 K1000]
      show ?thesis using fm e nd True by auto
    next
      case False
      have f1: "1 \<le> f" using f False by simp
      have i64: "1 / 64 \<le> 1 / ?W" using W by (intro divide_left_mono) simp_all
      have "(1::rat) \<le> of_int f" using f1 by simp
      then have "1 / ?W \<le> of_int f / ?W" using W by (intro divide_right_mono) simp_all
      then have lo: "of_int K + 1 / 64 \<le> ?J * ?X"
        using T i64 by linarith
      have "f \<le> w - 1" using f by simp
      then have "(of_int f :: rat) \<le> of_int (w - 1)" by (simp only: of_int_le_iff)
      then have "of_int f / ?W \<le> of_int (w - 1) / ?W" using W by (intro divide_right_mono) simp_all
      moreover have "of_int (w - 1) / ?W = 1 - 1 / ?W" using W by (simp add: field_simps)
      ultimately have hi: "?J * ?X \<le> of_int K + 1 - 1 / 64"
        using T i64 by linarith
      note e = cut_fractional[OF near lo hi K0 K1000]
      show ?thesis using fm e by auto
    qed
  qed
qed


text \<open>The length of a range is the integer quotient or one more.\<close>

lemma task_length:
  fixes n w i :: int
  assumes w1: "1 \<le> w" and w64: "w \<le> 64" and wn: "w \<le> n" and n1000: "n \<le> 1000"
    and i1: "1 \<le> i" and iw: "i \<le> w"
  shows "\<exists>s e. task (float_round (of_int n / of_int w)) i = Inr (s, e)
           \<and> (e - s + 1 = n div w \<or> e - s + 1 = n div w + 1)"
proof -
  let ?c = "float_round (of_int n / of_int w)"
  let ?K0 = "((i - 1) * n) div w" and ?K1 = "(i * n) div w" and ?q = "n div w"
  let ?f0 = "((i - 1) * n) mod w" and ?f1 = "(i * n) mod w" and ?r = "n mod w"
  have a: "0 \<le> i - 1" "i - 1 \<le> w" using i1 iw by simp_all
  have b: "0 \<le> i" using i1 by simp
  from cut_points[OF w1 w64 wn n1000 a] obtain P0 S0 where
    h0: "float_mul (of_int (i - 1)) ?c = Inr P0 \<and> float_add P0 1 = Inr S0
         \<and> ?K0 - 1 \<le> py_int P0 \<and> py_int P0 \<le> ?K0 \<and> ?K0 \<le> py_int S0 \<and> py_int S0 \<le> ?K0 + 1
         \<and> (?f0 \<noteq> 0 \<or> w dvd n \<longrightarrow> py_int P0 = ?K0 \<and> py_int S0 = ?K0 + 1)"
    by (elim exE) (erule that)
  then have p0: "float_mul (of_int (i - 1)) ?c = Inr P0" "float_add P0 1 = Inr S0"
    and s0: "?K0 \<le> py_int S0" "py_int S0 \<le> ?K0 + 1"
    and x0: "?f0 \<noteq> 0 \<or> w dvd n \<longrightarrow> py_int S0 = ?K0 + 1"
    by simp_all
  from cut_points[OF w1 w64 wn n1000 b iw] obtain P1 S1 where
    h1: "float_mul (of_int i) ?c = Inr P1 \<and> float_add P1 1 = Inr S1
         \<and> ?K1 - 1 \<le> py_int P1 \<and> py_int P1 \<le> ?K1 \<and> ?K1 \<le> py_int S1 \<and> py_int S1 \<le> ?K1 + 1
         \<and> (?f1 \<noteq> 0 \<or> w dvd n \<longrightarrow> py_int P1 = ?K1 \<and> py_int S1 = ?K1 + 1)"
    by (elim exE) (erule that)
  then have p1: "float_mul (of_int i) ?c = Inr P1"
    and e1: "?K1 - 1 \<le> py_int P1" "py_int P1 \<le> ?K1"
    and x1: "?f1 \<noteq> 0 \<or> w dvd n \<longrightarrow> py_int P1 = ?K1"
    by simp_all
  have "\<bar>i - 1\<bar> < 2 ^ 53" using i1 iw w64 by simp
  then have f0: "float_of_int (i - 1) = Inr (of_int (i - 1))" by (rule float_of_int_exact)
  have "\<bar>i\<bar> < 2 ^ 53" using i1 iw w64 by simp
  then have f1: "float_of_int i = Inr (of_int i)" by (rule float_of_int_exact)
  have "\<bar>1::int\<bar> < 2 ^ 53" by simp
  then have "float_of_int 1 = Inr (of_int 1)" by (rule float_of_int_exact)
  then have f2: "float_of_int 1 = Inr 1" by simp
  have p0': "float_mul (of_int i - 1) ?c = Inr P0" using p0(1) by simp
  have t: "task ?c i = Inr (py_int S0, py_int P1)"
    by (simp add: task_def f0 f1 f2 p0' p0(2) p1)
  have wpos: "0 < w" using w1 by simp
  from div_step[OF wpos, of i n] obtain d where
    hd: "?K1 = ?K0 + ?q + d \<and> (d = 0 \<or> d = 1) \<and> (?f0 = 0 \<longrightarrow> d = 0 \<and> ?f1 = ?r)
         \<and> (?f1 = 0 \<and> ?r \<noteq> 0 \<longrightarrow> d = 1) \<and> (?r = 0 \<longrightarrow> d = 0)"
    by (elim exE) (erule that)
  then have d: "?K1 = ?K0 + ?q + d" "d = 0 \<or> d = 1"
    and d0: "?f0 = 0 \<longrightarrow> d = 0 \<and> ?f1 = ?r"
    and d1: "?f1 = 0 \<and> ?r \<noteq> 0 \<longrightarrow> d = 1"
    and d2: "?r = 0 \<longrightarrow> d = 0"
    by simp_all
  have dv: "w dvd n \<longleftrightarrow> ?r = 0" by (rule dvd_eq_mod_eq_0)
  have "py_int P1 - py_int S0 + 1 = ?q \<or> py_int P1 - py_int S0 + 1 = ?q + 1"
  proof (cases "?r = 0")
    case True
    then have "py_int S0 = ?K0 + 1" "py_int P1 = ?K1" "d = 0" using x0 x1 d2 dv by simp_all
    then show ?thesis using d(1) by simp
  next
    case r: False
    show ?thesis
    proof (cases "?f0 = 0")
      case True
      then have "d = 0" "?f1 \<noteq> 0" using d0 r by simp_all
      then have "py_int P1 = ?K0 + ?q" using x1 d(1) by simp
      then show ?thesis using s0 by arith
    next
      case False
      then have S: "py_int S0 = ?K0 + 1" using x0 by simp
      show ?thesis
      proof (cases "?f1 = 0")
        case True
        then have "d = 1" using d1 r by simp
        then show ?thesis using S e1 d(1) by arith
      next
        case False
        then have "py_int P1 = ?K1" using x1 by simp
        then show ?thesis using S d by arith
      qed
    qed
  qed
  with t show ?thesis by blast
qed

lemma tasks_loop_lengths:
  assumes "\<forall>i\<in>set is. \<exists>s e. task c i = Inr (s, e) \<and> (e - s + 1 = q \<or> e - s + 1 = q + 1)"
  shows "\<exists>plan. tasks_loop c is = Inr plan
           \<and> (\<forall>(s, e)\<in>set plan. e - s + 1 = q \<or> e - s + 1 = q + 1)"
  using assms
proof (induction "is")
  case Nil
  then show ?case by simp
next
  case (Cons i "is")
  from Cons.prems obtain s e where
    t: "task c i = Inr (s, e)" "e - s + 1 = q \<or> e - s + 1 = q + 1"
    by auto
  from Cons.IH Cons.prems obtain plan where
    p: "tasks_loop c is = Inr plan" "\<forall>(s, e)\<in>set plan. e - s + 1 = q \<or> e - s + 1 = q + 1"
    by auto
  show ?case using t p by simp
qed

lemma multiprocess_tasks_lengths:
  assumes "1 \<le> num_train_images" and "num_train_images \<le> 1000" and "1 \<le> cpu_count" and "cpu_count \<le> 64"
  shows "\<exists>plan. multiprocess_tasks cpu_count num_train_images = Inr plan
           \<and> (\<forall>(s, e)\<in>set plan. e - s + 1 = num_train_images div min cpu_count num_train_images
                                  \<or> e - s + 1 = num_train_images div min cpu_count num_train_images + 1)"
proof -
  let ?w = "min cpu_count num_train_images"
  let ?c = "float_round (of_int num_train_images / of_int ?w)"
  have w: "1 \<le> ?w" "?w \<le> 64" "?w \<le> num_train_images" using assms by simp_all
  have np: "(if cpu_count > num_train_images then num_train_images else cpu_count) = ?w" by simp
  have c: "int_truediv num_train_images ?w = Inr ?c"
    using w(1,3) assms(2) by (rule chunk_facts(1))
  have "\<forall>i\<in>set [1..?w]. \<exists>s e. task ?c i = Inr (s, e)
          \<and> (e - s + 1 = num_train_images div ?w \<or> e - s + 1 = num_train_images div ?w + 1)"
  proof
    fix i assume "i \<in> set [1..?w]"
    then have i: "1 \<le> i" "i \<le> ?w" by simp_all
    show "\<exists>s e. task ?c i = Inr (s, e)
          \<and> (e - s + 1 = num_train_images div ?w \<or> e - s + 1 = num_train_images div ?w + 1)"
      using w assms(2) i by (rule task_length)
  qed
  then have "\<exists>plan. tasks_loop ?c [1..?w] = Inr plan
           \<and> (\<forall>(s, e)\<in>set plan. e - s + 1 = num_train_images div ?w \<or> e - s + 1 = num_train_images div ?w + 1)"
    by (rule tasks_loop_lengths)
  then show ?thesis
    unfolding multiprocess_tasks_def np Let_def c by simp
qed

lemma plan_5_on_2: "multiprocess_tasks 2 5 = Inr [(1, 2), (3, 5)]"
  by code_simp

text \<open>
  Claim C9 (partition fairness). For 1 to 1000 slides and 1 to 64 processors the partition
  formula returns a plan, and the lengths \<open>end - start + 1\<close> of any two of its ranges differ
  by at most 1: every length is the integer quotient of the number of slides by the number
  of processes, or one more.
\<close>

theorem partition_fairness:
  assumes "1 \<le> num_train_images" and "num_train_images \<le> 1000" and "1 \<le> cpu_count" and "cpu_count \<le> 64"
  shows "\<exists>plan. multiprocess_tasks cpu_count num_train_images = Inr plan
           \<and> (\<forall>(s, e)\<in>set plan. \<forall>(s', e')\<in>set plan.
                 \<bar>(e - s + 1) - (e' - s' + 1)\<bar> \<le> 1)"
proof -
  from multiprocess_tasks_lengths[OF assms] obtain plan where
    p: "multiprocess_tasks cpu_count num_train_images = Inr plan"
    and l: "\<forall>(s, e)\<in>set plan. e - s + 1 = num_train_images div min cpu_count num_train_images
                                  \<or> e - s + 1 = num_train_images div min cpu_count num_train_images + 1"
    by blast
  have "\<bar>(e - s + 1) - (e' - s' + 1)\<bar> \<le> 1"
    if "(s, e) \<in> set plan" and "(s', e') \<in> set plan" for s e s' e'
  proof -
    from l that(1) have 1: "e - s + 1 = num_train_images div min cpu_count num_train_images
        \<or> e - s + 1 = num_train_images div min cpu_count num_train_images + 1" by auto
    from l that(2) have 2: "e' - s' + 1 = num_train_images div min cpu_count num_train_images
        \<or> e' - s' + 1 = num_train_images div min cpu_count num_train_images + 1" by auto
    from 1 2 show ?thesis by arith
  qed
  then have "\<forall>(s, e)\<in>set plan. \<forall>(s', e')\<in>set plan. \<bar>(e - s + 1) - (e' - s' + 1)\<bar> \<le> 1"
    by auto
  with p show ?thesis by blast
qed

theorem partition_fairness_witness:
  "(1::int) \<le> 5 \<and> (5::int) \<le> 1000 \<and> (1::int) \<le> 2 \<and> (2::int) \<le> 64
   \<and> multiprocess_tasks 2 5 = Inr [(1, 2), (3, 5)]
   \<and> \<bar>((2::int) - 1 + 1) - (5 - 3 + 1)\<bar> \<le> 1"
proof -
  from partition_fairness[of 5 2] obtain plan where
    p: "multiprocess_tasks 2 5 = Inr plan"
    and l: "\<forall>(s, e)\<in>set plan. \<forall>(s', e')\<in>set plan. \<bar>(e - s + 1) - (e' - s' + 1)\<bar> \<le> 1"
    by auto
  from p have plan: "plan = [(1, 2), (3, 5)]" by (simp add: plan_5_on_2)
  from l have "\<bar>((2::int) - 1 + 1) - (5 - 3 + 1)\<bar> \<le> 1" unfolding plan by simp
  then show ?thesis using plan_5_on_2 by simp
qed

end
